theory Spec2Isabelle
  imports Main "HOL-Library.AList" "HOL-Library.Sublist"
begin

section \<open>JavaScript strings\<close>

text \<open>
  The extractor is the pair of classes \<open>SQLLineageParser\<close> and \<open>SQLLineageVisualizer\<close>
  whose method \<open>generateVisualizationData\<close> builds the lineage graph.  A JavaScript
  string is modelled as a \<open>string\<close>: a list of 8-bit code units, which covers the code
  units U+0000 to U+00FF.  Every pattern character of the source's regular expressions
  is ASCII.
\<close>

definition is_upper :: "char \<Rightarrow> bool" where
  "is_upper c = (65 \<le> (of_char c :: nat) \<and> (of_char c :: nat) \<le> 90)"

definition is_lower :: "char \<Rightarrow> bool" where
  "is_lower c = (97 \<le> (of_char c :: nat) \<and> (of_char c :: nat) \<le> 122)"

definition is_digit :: "char \<Rightarrow> bool" where
  "is_digit c = (48 \<le> (of_char c :: nat) \<and> (of_char c :: nat) \<le> 57)"

text \<open>\<open>\s\<close> and \<open>trim\<close>: TAB, LF, VT, FF, CR, SPACE and NBSP are the white space and
  line terminator code units below U+0100.\<close>

definition is_space :: "char \<Rightarrow> bool" where
  "is_space c = ((9 \<le> (of_char c :: nat) \<and> (of_char c :: nat) \<le> 13)
     \<or> (of_char c :: nat) = 32 \<or> (of_char c :: nat) = 160)"

text \<open>Without the \<open>s\<close> flag, \<open>.\<close> excludes the line terminators LF and CR.\<close>

definition is_line_terminator :: "char \<Rightarrow> bool" where
  "is_line_terminator c = ((of_char c :: nat) = 10 \<or> (of_char c :: nat) = 13)"

text \<open>Latin-1 letters with a one-unit case partner: U+00C0..U+00DE without U+00D7 and
  U+00E0..U+00FE without U+00F7.\<close>

definition is_latin_upper :: "char \<Rightarrow> bool" where
  "is_latin_upper c = (192 \<le> (of_char c :: nat) \<and> (of_char c :: nat) \<le> 222
     \<and> (of_char c :: nat) \<noteq> 215)"

definition is_latin_lower :: "char \<Rightarrow> bool" where
  "is_latin_lower c = (224 \<le> (of_char c :: nat) \<and> (of_char c :: nat) \<le> 254
     \<and> (of_char c :: nat) \<noteq> 247)"

definition ascii_upper :: "char \<Rightarrow> char" where
  "ascii_upper c = (if is_lower c then char_of ((of_char c :: nat) - 32) else c)"

definition lower_char :: "char \<Rightarrow> char" where
  "lower_char c = (if is_upper c \<or> is_latin_upper c then char_of ((of_char c :: nat) + 32) else c)"

definition toLowerCase :: "string \<Rightarrow> string" where
  "toLowerCase s = map lower_char s"

text \<open>\<open>toUpperCase\<close>: U+00DF becomes \<open>SS\<close>.  The upper-case forms of U+00B5 and U+00FF
  are U+039C and U+0178, outside the 8-bit range; the model keeps these two units as
  they are, which a search for an ASCII string cannot observe.\<close>

definition upper_units :: "char \<Rightarrow> string" where
  "upper_units c =
     (if (of_char c :: nat) = 223 then ''SS''
      else if is_lower c \<or> is_latin_lower c then [char_of ((of_char c :: nat) - 32)]
      else [c])"

definition toUpperCase :: "string \<Rightarrow> string" where
  "toUpperCase s = concat (map upper_units s)"

definition trim :: "string \<Rightarrow> string" where
  "trim s = rev (dropWhile is_space (rev (dropWhile is_space s)))"

text \<open>\<open>s.split(d)\<close> for a one-character separator: never empty.\<close>

fun split :: "char \<Rightarrow> string \<Rightarrow> string list" where
  "split d [] = [[]]"
| "split d (c # s) =
     (if c = d then [] # split d s
      else (case split d s of [] \<Rightarrow> [[c]] | p # ps \<Rightarrow> (c # p) # ps))"

text \<open>\<open>s.split('.').pop()\<close>\<close>

definition split_pop :: "string \<Rightarrow> string" where
  "split_pop s = last (split (CHR ''.'') s)"

text \<open>\<open>parts[i]\<close> inside a template literal: a missing element prints as \<open>undefined\<close>.\<close>

definition part_str :: "string list \<Rightarrow> nat \<Rightarrow> string" where
  "part_str ps i = (if i < length ps then ps ! i else ''undefined'')"

fun starts_with :: "string \<Rightarrow> string \<Rightarrow> bool" where
  "starts_with s [] = True"
| "starts_with [] (p # ps) = False"
| "starts_with (c # s) (p # ps) = (c = p \<and> starts_with s ps)"

fun includes_str :: "string \<Rightarrow> string \<Rightarrow> bool" where
  "includes_str [] p = starts_with [] p"
| "includes_str (c # s) p = (starts_with (c # s) p \<or> includes_str s p)"

text \<open>The decimal digits of a counter, as a template literal prints a number.\<close>

fun decimal :: "nat \<Rightarrow> string" where
  "decimal n =
     (if n < 10 then [char_of (48 + n)]
      else decimal (n div 10) @ [char_of (48 + n mod 10)])"

declare decimal.simps [simp del]

section \<open>Regular expressions\<close>

text \<open>
  The fragment of the JavaScript pattern language that the source uses.  \<open>Lit\<close> is a
  run of literal ASCII characters, \<open>Cls\<close> one of the four character classes that occur,
  \<open>Grp n\<close> the \<open>n\<close>-th capturing group, \<open>Bol\<close> and \<open>Eol\<close> are \<open>^\<close> and \<open>$\<close> (no \<open>m\<close>
  flag is ever set), \<open>Ahead\<close> is \<open>(?=...)\<close>.
\<close>

datatype cls = Space | IdStart | IdChar | NotIdChar

datatype rx =
    Lit string
  | Cls cls
  | Dot
  | Seq rx rx
  | Alt rx rx
  | Star rx
  | Plus rx
  | Opt rx
  | LazyStar rx
  | LazyPlus rx
  | Grp nat rx
  | Bol
  | Eol
  | Ahead rx

record flags =
  ignoreCase :: bool
  dotAll :: bool

fun in_cls :: "cls \<Rightarrow> char \<Rightarrow> bool" where
  "in_cls Space c = is_space c"
| "in_cls IdStart c = (is_lower c \<or> is_upper c \<or> c = CHR ''_'')"
| "in_cls IdChar c = (is_lower c \<or> is_upper c \<or> is_digit c \<or> c = CHR ''_'')"
| "in_cls NotIdChar c = (\<not> (is_lower c \<or> is_upper c \<or> is_digit c \<or> c = CHR ''_''))"

text \<open>Under the \<open>i\<close> flag two code units match when their canonical (upper-case) forms
  agree; the canonical form of a non-ASCII unit is never ASCII, so against an ASCII
  pattern character only the two ASCII cases of the letter match.\<close>

fun lit_match :: "bool \<Rightarrow> string \<Rightarrow> string \<Rightarrow> string option" where
  "lit_match ic [] w = Some w"
| "lit_match ic (p # ps) [] = None"
| "lit_match ic (p # ps) (c # w) =
     (if (if ic then ascii_upper c = ascii_upper p else c = p) then lit_match ic ps w else None)"

text \<open>A matcher state: the index reached, the rest of the subject from there, and the
  captures made so far (latest first).\<close>

type_synonym caps = "(nat \<times> string) list"
type_synonym mstate = "nat \<times> string \<times> caps"

definition progress :: "mstate \<Rightarrow> mstate \<Rightarrow> bool" where
  "progress st st' = (length (fst (snd st')) < length (fst (snd st)))"

text \<open>
  \<open>rmatch fl r st\<close> lists every way \<open>r\<close> can match from \<open>st\<close>, in the order in which the
  backtracking matcher of the language tries them: the head of the list is the match
  it reports.  A greedy quantifier lists longer repetitions first, a lazy one shorter
  ones first; an iteration of a quantifier that consumes nothing is not continued.
\<close>

function (sequential) rmatch :: "flags \<Rightarrow> rx \<Rightarrow> mstate \<Rightarrow> mstate list" where
  "rmatch fl (Lit p) st =
     (case lit_match (ignoreCase fl) p (fst (snd st)) of
        None \<Rightarrow> []
      | Some w' \<Rightarrow> [(fst st + length p, w', snd (snd st))])"
| "rmatch fl (Cls k) st =
     (case fst (snd st) of
        [] \<Rightarrow> []
      | c # w' \<Rightarrow> if in_cls k c then [(Suc (fst st), w', snd (snd st))] else [])"
| "rmatch fl Dot st =
     (case fst (snd st) of
        [] \<Rightarrow> []
      | c # w' \<Rightarrow>
          if dotAll fl \<or> \<not> is_line_terminator c then [(Suc (fst st), w', snd (snd st))] else [])"
| "rmatch fl (Seq r1 r2) st = concat (map (rmatch fl r2) (rmatch fl r1 st))"
| "rmatch fl (Alt r1 r2) st = rmatch fl r1 st @ rmatch fl r2 st"
| "rmatch fl (Star r) st =
     concat (map (\<lambda>st'. if progress st st' then rmatch fl (Star r) st' else []) (rmatch fl r st))
       @ [st]"
| "rmatch fl (LazyStar r) st =
     st # concat (map (\<lambda>st'. if progress st st' then rmatch fl (LazyStar r) st' else [])
                   (rmatch fl r st))"
| "rmatch fl (Plus r) st = concat (map (rmatch fl (Star r)) (rmatch fl r st))"
| "rmatch fl (LazyPlus r) st = concat (map (rmatch fl (LazyStar r)) (rmatch fl r st))"
| "rmatch fl (Opt r) st = filter (progress st) (rmatch fl r st) @ [st]"
| "rmatch fl (Grp n r) st =
     map (\<lambda>st'. (fst st', fst (snd st'),
                 (n, take (fst st' - fst st) (fst (snd st))) # snd (snd st')))
       (rmatch fl r st)"
| "rmatch fl Bol st = (if fst st = 0 then [st] else [])"
| "rmatch fl Eol st = (if fst (snd st) = [] then [st] else [])"
| "rmatch fl (Ahead r) st =
     (case rmatch fl r st of [] \<Rightarrow> [] | st' # _ \<Rightarrow> [(fst st, fst (snd st), snd (snd st'))])"
  by pat_completeness auto
termination
  by (relation "measures [\<lambda>(fl, r, st). 2 * size r
                            + (case r of Plus _ \<Rightarrow> 1 | LazyPlus _ \<Rightarrow> 1 | _ \<Rightarrow> 0),
                        \<lambda>(fl, r, st). length (fst (snd st))]")
     (auto simp: progress_def split: rx.splits)

declare rmatch.simps [simp del]

text \<open>A successful match: where it starts, where it ends, the rest of the subject after
  it, the matched text and the captures.\<close>

record rmatch_result =
  m_index :: nat
  m_end :: nat
  m_rest :: string
  m_text :: string
  m_caps :: caps

text \<open>Capture \<open>n\<close> of a match; \<open>None\<close> is \<open>undefined\<close>.\<close>

definition grp :: "rmatch_result \<Rightarrow> nat \<Rightarrow> string option" where
  "grp m n = map_of (m_caps m) n"

text \<open>Capture \<open>n\<close> where the source uses it as a string without a test.  In each such
  place the group is not optional in its pattern.\<close>

definition grp_str :: "rmatch_result \<Rightarrow> nat \<Rightarrow> string" where
  "grp_str m n = (case grp m n of None \<Rightarrow> ''undefined'' | Some s \<Rightarrow> s)"

text \<open>The search of \<open>RegExp.prototype.exec\<close>: the leftmost start at or after index \<open>p\<close>
  from which the pattern matches; \<open>w\<close> is the subject from \<open>p\<close> on.\<close>

fun search :: "flags \<Rightarrow> rx \<Rightarrow> nat \<Rightarrow> string \<Rightarrow> rmatch_result option" where
  "search fl r p w =
     (case rmatch fl r (p, w, []) of
        st # _ \<Rightarrow> Some \<lparr>m_index = p, m_end = fst st, m_rest = fst (snd st),
                        m_text = take (fst st - p) w, m_caps = snd (snd st)\<rparr>
      | [] \<Rightarrow> (case w of [] \<Rightarrow> None | _ # w' \<Rightarrow> search fl r (Suc p) w'))"

declare search.simps [simp del]

text \<open>\<open>str.match(re)\<close> and \<open>re.test(str)\<close> for a pattern without the \<open>g\<close> flag.\<close>

definition match :: "flags \<Rightarrow> rx \<Rightarrow> string \<Rightarrow> rmatch_result option" where
  "match fl r s = search fl r 0 s"

definition test :: "flags \<Rightarrow> rx \<Rightarrow> string \<Rightarrow> bool" where
  "test fl r s = (match fl r s \<noteq> None)"

text \<open>
  \<open>while ((m = re.exec(str)) !== null) ...\<close> for a pattern with the \<open>g\<close> flag: the list of
  the successive matches.  \<open>exec\<close> starts at \<open>lastIndex\<close> and sets it to the end of the match
  it finds, so after an empty match the next call finds the same match and the loop
  never ends: that is the result \<open>None\<close>.
\<close>

function exec_all :: "flags \<Rightarrow> rx \<Rightarrow> nat \<Rightarrow> string \<Rightarrow> rmatch_result list option" where
  "exec_all fl r p w =
     (case search fl r p w of
        None \<Rightarrow> Some []
      | Some m \<Rightarrow>
          if m_text m \<noteq> [] \<and> length (m_rest m) < length w
          then map_option ((#) m) (exec_all fl r (m_end m) (m_rest m))
          else None)"
  by pat_completeness auto
termination
  by (relation "measure (\<lambda>(fl, r, p, w). length w)") auto

declare exec_all.simps [simp del]

text \<open>\<open>str.replace(re, rep)\<close> for a pattern without the \<open>g\<close> flag: the first match only.\<close>

definition replace_first :: "flags \<Rightarrow> rx \<Rightarrow> string \<Rightarrow> string \<Rightarrow> string" where
  "replace_first fl r rep s =
     (case match fl r s of
        None \<Rightarrow> s
      | Some m \<Rightarrow> take (m_index m) s @ rep @ m_rest m)"

text \<open>\<open>str.replace(re, rep)\<close> for a pattern with the \<open>g\<close> flag; after an empty match the
  search resumes one code unit further on.  \<open>w\<close> is the subject from index \<open>p\<close> on.\<close>

function replace_all :: "flags \<Rightarrow> rx \<Rightarrow> string \<Rightarrow> nat \<Rightarrow> string \<Rightarrow> string" where
  "replace_all fl r rep p w =
     (case search fl r p w of
        None \<Rightarrow> w
      | Some m \<Rightarrow>
          take (m_index m - p) w @ rep @
          (if length (m_rest m) < length w \<and> m_text m \<noteq> []
           then replace_all fl r rep (m_end m) (m_rest m)
           else (case drop (m_index m - p) w of
                   [] \<Rightarrow> []
                 | c # w' \<Rightarrow> c # replace_all fl r rep (Suc (m_index m)) w')))"
  by pat_completeness auto
termination
  by (relation "measure (\<lambda>(fl, r, rep, p, w). length w)")
     (auto dest!: arg_cong [where f = length])

declare replace_all.simps [simp del]

section \<open>The patterns of the source\<close>

fun seqs :: "rx list \<Rightarrow> rx" where
  "seqs [] = Lit []"
| "seqs [r] = r"
| "seqs (r # rs) = Seq r (seqs rs)"

fun alts :: "rx list \<Rightarrow> rx" where
  "alts [] = Lit []"
| "alts [r] = r"
| "alts (r # rs) = Alt r (alts rs)"

definition fl_none :: flags where "fl_none = \<lparr>ignoreCase = False, dotAll = False\<rparr>"
definition fl_i :: flags where "fl_i = \<lparr>ignoreCase = True, dotAll = False\<rparr>"
definition fl_si :: flags where "fl_si = \<lparr>ignoreCase = True, dotAll = True\<rparr>"

text \<open>\<open>\s+\<close>, \<open>\s*\<close>, \<open>[a-zA-Z_][a-zA-Z0-9_]*\<close> and
  \<open>[a-zA-Z_][a-zA-Z0-9_]*(?:\.[a-zA-Z_][a-zA-Z0-9_]*)?\<close>\<close>

definition ws1 :: rx where "ws1 = Plus (Cls Space)"
definition ws0 :: rx where "ws0 = Star (Cls Space)"
definition ident :: rx where "ident = Seq (Cls IdStart) (Star (Cls IdChar))"
definition dotted :: rx where "dotted = Seq ident (Opt (Seq (Lit ''.'') ident))"

text \<open>\<open>/\s+/g\<close>\<close>

definition rx_ws :: rx where "rx_ws = ws1"

text \<open>\<open>/FROM\s+([a-zA-Z_][a-zA-Z0-9_]*(?:\.[a-zA-Z_][a-zA-Z0-9_]*)?)/i\<close>\<close>

definition rx_from :: rx where
  "rx_from = seqs [Lit ''FROM'', ws1, Grp 1 dotted]"

text \<open>\<open>(?:INNER\s+JOIN|LEFT\s+JOIN|RIGHT\s+JOIN|FULL\s+JOIN|JOIN)\<close>\<close>

definition join_kw :: rx where
  "join_kw = alts [seqs [Lit ''INNER'', ws1, Lit ''JOIN''], seqs [Lit ''LEFT'', ws1, Lit ''JOIN''],
                   seqs [Lit ''RIGHT'', ws1, Lit ''JOIN''], seqs [Lit ''FULL'', ws1, Lit ''JOIN''],
                   Lit ''JOIN'']"

text \<open>\<open>/(?:INNER\s+JOIN|...|JOIN)\s+([a-zA-Z_][a-zA-Z0-9_]*(?:\.[a-zA-Z_][a-zA-Z0-9_]*)?)/gi\<close>\<close>

definition rx_join :: rx where
  "rx_join = seqs [join_kw, ws1, Grp 1 dotted]"

text \<open>\<open>/FROM\s+(...)\s*(?:AS\s+)?([a-zA-Z_][a-zA-Z0-9_]*)?/i\<close> and the same after the join
  keywords, with the \<open>g\<close> flag.\<close>

definition rx_from_alias :: rx where
  "rx_from_alias = seqs [Lit ''FROM'', ws1, Grp 1 dotted, ws0, Opt (Seq (Lit ''AS'') ws1),
                         Opt (Grp 2 ident)]"

definition rx_join_alias :: rx where
  "rx_join_alias = seqs [join_kw, ws1, Grp 1 dotted, ws0, Opt (Seq (Lit ''AS'') ws1),
                         Opt (Grp 2 ident)]"

text \<open>\<open>/([a-zA-Z_][a-zA-Z0-9_]*)\s*\.\s*([a-zA-Z_][a-zA-Z0-9_]*)/g\<close>\<close>

definition rx_table_column :: rx where
  "rx_table_column = seqs [Grp 1 ident, ws0, Lit ''.'', ws0, Grp 2 ident]"

text \<open>\<open>/SELECT\s+(.*?)\s+FROM/si\<close>\<close>

definition rx_select :: rx where
  "rx_select = seqs [Lit ''SELECT'', ws1, Grp 1 (LazyStar Dot), ws1, Lit ''FROM'']"

text \<open>\<open>/^(.*?)\s+AS\s+([a-zA-Z_][a-zA-Z0-9_]*)$/i\<close>\<close>

definition rx_as :: rx where
  "rx_as = seqs [Bol, Grp 1 (LazyStar Dot), ws1, Lit ''AS'', ws1, Grp 2 ident, Eol]"

text \<open>\<open>/\s+AS\s+[a-zA-Z_][a-zA-Z0-9_]*/i\<close>\<close>

definition rx_as_suffix :: rx where
  "rx_as_suffix = seqs [ws1, Lit ''AS'', ws1, ident]"

text \<open>\<open>/[a-zA-Z_][a-zA-Z0-9_]*\s*\((.*?)\)/i\<close>\<close>

definition rx_func :: rx where
  "rx_func = seqs [ident, ws0, Lit ''('', Grp 1 (LazyStar Dot), Lit '')'']"

text \<open>\<open>/^[a-zA-Z_][a-zA-Z0-9_]*$/\<close>\<close>

definition rx_ident_only :: rx where
  "rx_ident_only = seqs [Bol, ident, Eol]"

text \<open>\<open>/(?:INNER\s+JOIN|...|JOIN)\s+[a-zA-Z_][a-zA-Z0-9_]*(?:\s+AS\s+[a-zA-Z_][a-zA-Z0-9_]*)?\s+ON\s+(.*?)(?=\s+(?:INNER\s+JOIN|LEFT\s+JOIN|RIGHT\s+JOIN|FULL\s+JOIN|JOIN|WHERE|GROUP\s+BY|ORDER\s+BY|HAVING|LIMIT|;|$))/gi\<close>\<close>

definition rx_join_on :: rx where
  "rx_join_on =
     seqs [join_kw, ws1, ident, Opt (seqs [ws1, Lit ''AS'', ws1, ident]), ws1, Lit ''ON'', ws1,
           Grp 1 (LazyStar Dot),
           Ahead (Seq ws1
             (alts [seqs [Lit ''INNER'', ws1, Lit ''JOIN''], seqs [Lit ''LEFT'', ws1, Lit ''JOIN''],
                    seqs [Lit ''RIGHT'', ws1, Lit ''JOIN''], seqs [Lit ''FULL'', ws1, Lit ''JOIN''],
                    Lit ''JOIN'', Lit ''WHERE'', seqs [Lit ''GROUP'', ws1, Lit ''BY''],
                    seqs [Lit ''ORDER'', ws1, Lit ''BY''], Lit ''HAVING'', Lit ''LIMIT'',
                    Lit '';'', Eol]))]"

text \<open>\<open>/([a-zA-Z_][a-zA-Z0-9_]*\.[a-zA-Z_][a-zA-Z0-9_]*)\s*=\s*([a-zA-Z_][a-zA-Z0-9_]*\.[a-zA-Z_][a-zA-Z0-9_]*)/g\<close>\<close>

definition rx_condition :: rx where
  "rx_condition = seqs [Grp 1 (seqs [ident, Lit ''.'', ident]), ws0, Lit ''='', ws0,
                        Grp 2 (seqs [ident, Lit ''.'', ident])]"

text \<open>\<open>/WHERE\s+(.+?)(?:\s+GROUP|\s+ORDER|\s+HAVING|\s*;|\s*$)/si\<close>\<close>

definition rx_where :: rx where
  "rx_where = seqs [Lit ''WHERE'', ws1, Grp 1 (LazyPlus Dot),
                    alts [Seq ws1 (Lit ''GROUP''), Seq ws1 (Lit ''ORDER''), Seq ws1 (Lit ''HAVING''),
                          Seq ws0 (Lit '';''), Seq ws0 Eol]]"

text \<open>\<open>/UPDATE\s+([a-zA-Z_][a-zA-Z0-9_]*)/i\<close> and \<open>/INSERT\s+INTO\s+([a-zA-Z_][a-zA-Z0-9_]*)/i\<close>\<close>

definition rx_update :: rx where
  "rx_update = seqs [Lit ''UPDATE'', ws1, Grp 1 ident]"

definition rx_insert :: rx where
  "rx_insert = seqs [Lit ''INSERT'', ws1, Lit ''INTO'', ws1, Grp 1 ident]"

section \<open>Failures\<close>

text \<open>
  The ways in which a call does not return a graph: a \<open>TypeError\<close> is thrown, an
  \<open>exec\<close> loop does not end, or \<open>parseSQLAndVisualize\<close> rejects a blank input.
\<close>

datatype failure = TypeError | Diverges | EmptyInput

definition exec_loop :: "flags \<Rightarrow> rx \<Rightarrow> string \<Rightarrow> failure + rmatch_result list" where
  "exec_loop fl r s = (case exec_all fl r 0 s of None \<Rightarrow> Inl Diverges | Some ms \<Rightarrow> Inr ms)"

text \<open>\<open>if (!xs.includes(x)) xs.push(x)\<close>, and \<open>Set.prototype.add\<close> on a set kept in
  insertion order.\<close>

definition push_new :: "'a list \<Rightarrow> 'a \<Rightarrow> 'a list" where
  "push_new xs x = (if x \<in> set xs then xs else xs @ [x])"

section \<open>SQLLineageParser\<close>

text \<open>
  \<open>isSQLKeyword\<close> and \<open>isValidColumnName\<close>.
\<close>

definition sql_keywords :: "string list" where
  "sql_keywords =
     [''SELECT'', ''FROM'', ''WHERE'', ''JOIN'', ''INNER'', ''LEFT'', ''RIGHT'', ''FULL'',
      ''ON'', ''AND'', ''OR'', ''NOT'', ''NULL'', ''TRUE'', ''FALSE'', ''COUNT'', ''SUM'',
      ''AVG'', ''MIN'', ''MAX'', ''GROUP'', ''BY'', ''ORDER'', ''HAVING'', ''LIMIT'',
      ''DISTINCT'', ''AS'', ''CASE'', ''WHEN'', ''THEN'', ''ELSE'', ''END'', ''LIKE'',
      ''IN'', ''BETWEEN'', ''EXISTS'', ''ALL'', ''ANY'', ''SOME'', ''UNION'', ''INTERSECT'',
      ''EXCEPT'', ''INSERT'', ''UPDATE'', ''DELETE'', ''CREATE'', ''ALTER'', ''DROP'',
      ''TABLE'', ''VIEW'', ''INDEX'', ''DATABASE'', ''SCHEMA'', ''PRIMARY'', ''KEY'',
      ''FOREIGN'', ''REFERENCES'', ''CONSTRAINT'', ''UNIQUE'', ''CHECK'', ''DEFAULT'',
      ''AUTO_INCREMENT'', ''IDENTITY'', ''TIMESTAMP'', ''DATETIME'', ''DATE'', ''TIME'',
      ''VARCHAR'', ''CHAR'', ''TEXT'', ''INT'', ''INTEGER'', ''BIGINT'', ''SMALLINT'',
      ''DECIMAL'', ''NUMERIC'', ''FLOAT'', ''DOUBLE'', ''BOOLEAN'', ''BOOL'']"

definition isSQLKeyword :: "string \<Rightarrow> bool" where
  "isSQLKeyword word = (toUpperCase word \<in> set sql_keywords)"

definition isValidColumnName :: "string \<Rightarrow> bool" where
  "isValidColumnName name = (test fl_none rx_ident_only name \<and> \<not> isSQLKeyword name)"

text \<open>\<open>splitSelectClause\<close>: the loop over the characters, with the part being built and
  the parenthesis count, then the push of the last part.\<close>

fun splitLoop :: "string \<Rightarrow> string list \<Rightarrow> string \<Rightarrow> int \<Rightarrow> string list \<times> string" where
  "splitLoop [] parts current parenCount = (parts, current)"
| "splitLoop (c # cs) parts current parenCount =
     (if c = CHR ''('' then splitLoop cs parts (current @ [c]) (parenCount + 1)
      else if c = CHR '')'' then splitLoop cs parts (current @ [c]) (parenCount - 1)
      else if c = CHR '','' \<and> parenCount = 0 then splitLoop cs (parts @ [trim current]) [] parenCount
      else splitLoop cs parts (current @ [c]) parenCount)"

definition splitSelectClause :: "string \<Rightarrow> string list" where
  "splitSelectClause selectClause =
     (case splitLoop selectClause [] [] 0 of
        (parts, current) \<Rightarrow> if trim current \<noteq> [] then parts @ [trim current] else parts)"

text \<open>\<open>map.get(k)\<close> or a capture followed by a test of the value: \<open>undefined\<close> and the
  empty string are falsy.\<close>

definition truthy :: "string option \<Rightarrow> string option" where
  "truthy v = (case v of None \<Rightarrow> None | Some s \<Rightarrow> if s = [] then None else Some s)"

text \<open>\<open>extractOriginalColumnFromExpression\<close>; \<open>None\<close> is \<open>null\<close>.  \<open>cleanExpr\<close> is the value
  of the variable of that name when the method reaches its tests: the expression
  without its \<open>AS\<close> suffix, or the text between the parentheses of a function call in it.\<close>

definition cleanExpr :: "string \<Rightarrow> string" where
  "cleanExpr expr =
     (case match fl_i rx_func (replace_first fl_i rx_as_suffix [] expr) of
        None \<Rightarrow> replace_first fl_i rx_as_suffix [] expr
      | Some funcMatch \<Rightarrow>
          (case truthy (grp funcMatch 1) of
             Some inner \<Rightarrow> inner
           | None \<Rightarrow> replace_first fl_i rx_as_suffix [] expr))"

definition extractOriginalColumnFromExpression :: "string \<Rightarrow> string option" where
  "extractOriginalColumnFromExpression expr =
     (if CHR ''.'' \<in> set (cleanExpr expr) then Some (trim (split_pop (cleanExpr expr)))
      else if isValidColumnName (cleanExpr expr) then Some (cleanExpr expr)
      else None)"

text \<open>
  \<open>parseSQL\<close>: the query is trimmed and its white space collapsed, then
  \<open>extractTablesAndColumns\<close> collects the table of the FROM clause and the tables of the
  JOIN clauses.  The fields \<open>columns\<close> and \<open>relationships\<close> of the result are not read by
  \<open>generateVisualizationData\<close> and are left out of the record.
\<close>

record parse_result =
  query :: string
  tables :: "string list"

definition extractTablesAndColumns :: "string \<Rightarrow> failure + string list" where
  "extractTablesAndColumns sql =
     (let tables0 = (case match fl_i rx_from sql of
                       None \<Rightarrow> []
                     | Some m \<Rightarrow> push_new [] (split_pop (grp_str m 1)))
      in case exec_loop fl_i rx_join sql of
           Inl e \<Rightarrow> Inl e
         | Inr ms \<Rightarrow> Inr (foldl (\<lambda>ts m. push_new ts (split_pop (grp_str m 1))) tables0 ms))"

text \<open>\<open>sqlQuery.trim().replace(/\s+/g, ' ')\<close>\<close>

definition cleanQuery :: "string \<Rightarrow> string" where
  "cleanQuery sqlQuery = replace_all fl_none rx_ws '' '' 0 (trim sqlQuery)"

definition parseSQL :: "string \<Rightarrow> failure + parse_result" where
  "parseSQL sqlQuery =
     (case extractTablesAndColumns (cleanQuery sqlQuery) of
        Inl e \<Rightarrow> Inl e
      | Inr ts \<Rightarrow> Inr \<lparr>query = cleanQuery sqlQuery, tables = ts\<rparr>)"

section \<open>SQLLineageVisualizer\<close>

subsection \<open>The graph\<close>

datatype node_type = Query | Table | Column

datatype edge_type = FlowsTo | Provides | Uses | Constrains | Modifies | Sources

record node =
  n_id :: string
  n_name :: string
  n_type :: node_type
  n_originalQualifiedName :: "string option"
  n_isAlias :: bool

record edge =
  e_source :: string
  e_target :: string
  e_type :: edge_type
  e_label :: "string option"

record graph =
  g_nodes :: "node list"
  g_edges :: "edge list"

subsection \<open>Plain objects used as dictionaries\<close>

text \<open>
  \<open>tableAliases\<close> and \<open>tableColumnMap\<close> are object literals \<open>{}\<close>, so a lookup of a key
  they do not own finds the properties of \<open>Object.prototype\<close>.  \<open>inherited k\<close> is the
  string form of the inherited value of \<open>k\<close>, if there is one.  None of these values has
  a method \<open>includes\<close>.  An assignment to the key \<open>__proto__\<close> of a string value changes
  nothing.
\<close>

definition object_prototype_methods :: "string list" where
  "object_prototype_methods =
     [''__defineGetter__'', ''__defineSetter__'', ''hasOwnProperty'', ''__lookupGetter__'',
      ''__lookupSetter__'', ''isPrototypeOf'', ''propertyIsEnumerable'', ''toString'',
      ''valueOf'', ''toLocaleString'']"

definition inherited :: "string \<Rightarrow> string option" where
  "inherited k =
     (if k = ''constructor'' then Some ''function Object() { [native code] }''
      else if k = ''__proto__'' then Some ''[object Object]''
      else if k \<in> set object_prototype_methods
      then Some (''function '' @ k @ ''() { [native code] }'')
      else None)"

type_synonym aliases = "string \<rightharpoonup> string"

text \<open>\<open>aliases[k] = v\<close>\<close>

definition aliases_set :: "aliases \<Rightarrow> string \<Rightarrow> string \<Rightarrow> aliases" where
  "aliases_set a k v = (if k = ''__proto__'' then a else a(k \<mapsto> v))"

text \<open>\<open>tableAliases[k] || dflt\<close>, as it is then used inside a template literal.\<close>

definition resolve_alias :: "aliases \<Rightarrow> string \<Rightarrow> string \<Rightarrow> string" where
  "resolve_alias a k dflt =
     (case a k of
        Some v \<Rightarrow> if v = [] then dflt else v
      | None \<Rightarrow> (case inherited k of Some v \<Rightarrow> v | None \<Rightarrow> dflt))"

text \<open>\<open>tableColumnMap\<close>: the own properties in insertion order (no key is an array
  index).  \<open>tcm_add\<close> is
  \<open>if (!m[t]) m[t] = []; if (!m[t].includes(c)) m[t].push(c)\<close>.\<close>

type_synonym tcmap = "(string \<times> string list) list"

definition tcm_add :: "tcmap \<Rightarrow> string \<Rightarrow> string \<Rightarrow> failure + tcmap" where
  "tcm_add m t c =
     (case map_of m t of
        Some cs \<Rightarrow> Inr (AList.update t (push_new cs c) m)
      | None \<Rightarrow> if inherited t \<noteq> None then Inl TypeError else Inr (m @ [(t, [c])]))"

subsection \<open>The helpers of the visualizer\<close>

text \<open>\<open>extractTableAliases\<close>\<close>

definition alias_entry :: "aliases \<Rightarrow> rmatch_result \<Rightarrow> aliases" where
  "alias_entry a m =
     (let tableName = split_pop (grp_str m 1);
          alias = (case truthy (grp m 2) of Some s \<Rightarrow> s | None \<Rightarrow> tableName)
      in aliases_set a (toLowerCase alias) tableName)"

definition extractTableAliases :: "string \<Rightarrow> failure + aliases" where
  "extractTableAliases sql =
     (let a0 = (case match fl_i rx_from_alias sql of
                  None \<Rightarrow> Map.empty
                | Some m \<Rightarrow> alias_entry Map.empty m)
      in case exec_loop fl_i rx_join_alias sql of
           Inl e \<Rightarrow> Inl e
         | Inr ms \<Rightarrow> Inr (foldl alias_entry a0 ms))"

text \<open>\<open>extractTableColumnReferences\<close>: \<open>tableColumnMap\<close> is \<open>None\<close> for \<open>null\<close>.  The body of
  the loop for one match, then the loop.\<close>

fun ref_loop ::
  "aliases \<Rightarrow> rmatch_result list \<Rightarrow> tcmap option \<Rightarrow> string list
     \<Rightarrow> failure + (tcmap option \<times> string list)" where
  "ref_loop a [] tableColumnMap qualifiedNamesArray = Inr (tableColumnMap, qualifiedNamesArray)"
| "ref_loop a (m # ms) tableColumnMap qualifiedNamesArray =
     (let tableOrAlias = trim (grp_str m 1);
          columnName = trim (grp_str m 2);
          actualTableName = resolve_alias a (toLowerCase tableOrAlias) tableOrAlias
      in case (case tableColumnMap of
                 None \<Rightarrow> Inr None
               | Some t \<Rightarrow> map_sum id Some (tcm_add t actualTableName columnName)) of
           Inl e \<Rightarrow> Inl e
         | Inr tableColumnMap' \<Rightarrow>
             ref_loop a ms tableColumnMap'
               (push_new qualifiedNamesArray (actualTableName @ ''.'' @ columnName)))"

definition extractTableColumnReferences ::
  "string \<Rightarrow> aliases \<Rightarrow> tcmap option \<Rightarrow> string list \<Rightarrow> failure + (tcmap option \<times> string list)" where
  "extractTableColumnReferences expression tableAliases tableColumnMap qualifiedNamesArray =
     (case exec_loop fl_none rx_table_column expression of
        Inl e \<Rightarrow> Inl e
      | Inr ms \<Rightarrow> ref_loop tableAliases ms tableColumnMap qualifiedNamesArray)"

text \<open>\<open>extractJoinConditions\<close>: a condition is the pair of \<open>leftColumnQualified\<close> and
  \<open>rightColumnQualified\<close>.\<close>

definition qualify :: "aliases \<Rightarrow> string \<Rightarrow> string" where
  "qualify a expr =
     (let parts = split (CHR ''.'') expr;
          tableOrAlias = part_str parts 0;
          columnName = part_str parts 1;
          actualTable = resolve_alias a (toLowerCase tableOrAlias) tableOrAlias
      in actualTable @ ''.'' @ columnName)"

definition join_condition :: "aliases \<Rightarrow> rmatch_result \<Rightarrow> string \<times> string" where
  "join_condition a condMatch =
     (qualify a (trim (grp_str condMatch 1)), qualify a (trim (grp_str condMatch 2)))"

fun join_loop :: "aliases \<Rightarrow> rmatch_result list \<Rightarrow> failure + (string \<times> string) list" where
  "join_loop a [] = Inr []"
| "join_loop a (m # ms) =
     (case exec_loop fl_none rx_condition (grp_str m 1) of
        Inl e \<Rightarrow> Inl e
      | Inr cs \<Rightarrow>
          (case join_loop a ms of
             Inl e \<Rightarrow> Inl e
           | Inr rest \<Rightarrow> Inr (map (join_condition a) cs @ rest)))"

definition extractJoinConditions :: "string \<Rightarrow> aliases \<Rightarrow> failure + (string \<times> string) list" where
  "extractJoinConditions sql tableAliases =
     (case exec_loop fl_i rx_join_on sql of
        Inl e \<Rightarrow> Inl e
      | Inr ms \<Rightarrow> join_loop tableAliases ms)"

subsection \<open>generateVisualizationData\<close>

text \<open>The local variables of the method that its loops update.\<close>

record gstate =
  nodes :: "node list"
  edges :: "edge list"
  nodeIdCounter :: nat
  nodeMap :: "string \<rightharpoonup> string"
  columnNodeIdMap :: "string \<rightharpoonup> string"
  aliasNodeIdMap :: "string \<rightharpoonup> string"
  resolvedColumnAliases :: "(string \<times> string) list"
  outputColumns :: "string list"
  selectedOriginalQualifiedColumns :: "string list"

definition mainQueryNodeId :: string where
  "mainQueryNodeId = ''query_main''"

definition init_state :: gstate where
  "init_state =
     \<lparr>nodes = [\<lparr>n_id = mainQueryNodeId, n_name = ''Main Query'', n_type = Query,
                n_originalQualifiedName = None, n_isAlias = False\<rparr>],
      edges = [], nodeIdCounter = 0,
      nodeMap = [''main_query'' \<mapsto> mainQueryNodeId],
      columnNodeIdMap = Map.empty, aliasNodeIdMap = Map.empty,
      resolvedColumnAliases = [], outputColumns = [], selectedOriginalQualifiedColumns = []\<rparr>"

definition push_edge :: "gstate \<Rightarrow> string \<Rightarrow> string \<Rightarrow> edge_type \<Rightarrow> string option \<Rightarrow> gstate" where
  "push_edge g s t k l =
     g\<lparr>edges := edges g @ [\<lparr>e_source = s, e_target = t, e_type = k, e_label = l\<rparr>]\<rparr>"

text \<open>\<open>parserResult.tables.forEach\<close>\<close>

definition addTable :: "gstate \<Rightarrow> string \<Rightarrow> gstate" where
  "addTable g tableName =
     (let nodeId = ''table_'' @ decimal (nodeIdCounter g)
      in g\<lparr>nodeIdCounter := Suc (nodeIdCounter g),
            nodes := nodes g @ [\<lparr>n_id = nodeId, n_name = tableName, n_type = Table,
                                 n_originalQualifiedName = None, n_isAlias = False\<rparr>],
            nodeMap := (nodeMap g)(toLowerCase tableName \<mapsto> nodeId)\<rparr>)"

text \<open>\<open>allQualifiedColumnNames.forEach\<close>\<close>

definition addQualifiedColumn :: "gstate \<Rightarrow> string \<Rightarrow> gstate" where
  "addQualifiedColumn g qualifiedColumnName =
     (if columnNodeIdMap g (toLowerCase qualifiedColumnName) = None
      then (let parts = split (CHR ''.'') qualifiedColumnName;
                tableName = part_str parts 0;
                columnName = part_str parts 1;
                nodeId = ''col_'' @ decimal (nodeIdCounter g)
            in g\<lparr>nodeIdCounter := Suc (nodeIdCounter g),
                  nodes := nodes g @ [\<lparr>n_id = nodeId, n_name = tableName @ '' > '' @ columnName,
                                       n_type = Column,
                                       n_originalQualifiedName = Some qualifiedColumnName,
                                       n_isAlias = False\<rparr>],
                  columnNodeIdMap := (columnNodeIdMap g)(toLowerCase qualifiedColumnName \<mapsto> nodeId)\<rparr>)
      else g)"

text \<open>The creation of a simple column node, written three times in the loop over the
  parts of the SELECT clause: for an inferred column of an aliased part, for one of a
  part without alias, and for \<open>*\<close>.\<close>

definition addSimpleColumn :: "gstate \<Rightarrow> string \<Rightarrow> gstate" where
  "addSimpleColumn g columnName =
     (if columnNodeIdMap g (toLowerCase columnName) = None
      then (let nodeId = ''col_'' @ decimal (nodeIdCounter g)
            in g\<lparr>nodeIdCounter := Suc (nodeIdCounter g),
                  nodes := nodes g @ [\<lparr>n_id = nodeId, n_name = columnName, n_type = Column,
                                       n_originalQualifiedName = Some columnName,
                                       n_isAlias = False\<rparr>],
                  columnNodeIdMap := (columnNodeIdMap g)(toLowerCase columnName \<mapsto> nodeId)\<rparr>)
      else g)"

text \<open>\<open>selectClauseParts.forEach\<close>: the body for one part, in its two branches (the
  part matches \<open>... AS alias\<close> or not), each given the qualified references
  \<open>originalRefs\<close> found in the expression.\<close>

definition aliasedPart :: "gstate \<Rightarrow> string \<Rightarrow> string \<Rightarrow> string list \<Rightarrow> gstate" where
  "aliasedPart g originalExpr aliasName originalRefs =
     (let g1 =
        (case originalRefs of
           r # _ \<Rightarrow>
             g\<lparr>resolvedColumnAliases :=
                  AList.update (toLowerCase r) aliasName (resolvedColumnAliases g),
               selectedOriginalQualifiedColumns :=
                  push_new (selectedOriginalQualifiedColumns g) (toLowerCase r)\<rparr>
         | [] \<Rightarrow>
             (case truthy (extractOriginalColumnFromExpression originalExpr) of
                Some inferredColumnName \<Rightarrow>
                  (let g' = addSimpleColumn g inferredColumnName
                   in g'\<lparr>selectedOriginalQualifiedColumns :=
                           push_new (selectedOriginalQualifiedColumns g')
                             (toLowerCase inferredColumnName)\<rparr>)
              | None \<Rightarrow> g))
      in g1\<lparr>outputColumns := push_new (outputColumns g1) aliasName\<rparr>)"

definition plainPart :: "gstate \<Rightarrow> string \<Rightarrow> string list \<Rightarrow> gstate" where
  "plainPart g trimmedPart originalRefs =
     (case originalRefs of
        r # _ \<Rightarrow>
          g\<lparr>selectedOriginalQualifiedColumns :=
               push_new (selectedOriginalQualifiedColumns g) (toLowerCase r),
            outputColumns := push_new (outputColumns g) (toLowerCase r)\<rparr>
      | [] \<Rightarrow>
          (case truthy (extractOriginalColumnFromExpression trimmedPart) of
             Some inferredColumnName \<Rightarrow>
               (let g' = addSimpleColumn g inferredColumnName
                in g'\<lparr>selectedOriginalQualifiedColumns :=
                        push_new (selectedOriginalQualifiedColumns g')
                          (toLowerCase inferredColumnName),
                      outputColumns :=
                        push_new (outputColumns g') (toLowerCase inferredColumnName)\<rparr>)
           | None \<Rightarrow>
               if trimmedPart = ''*''
               then addSimpleColumn (g\<lparr>outputColumns := push_new (outputColumns g) ''*''\<rparr>) ''*''
               else g))"

definition selectPart :: "aliases \<Rightarrow> gstate \<Rightarrow> string \<Rightarrow> failure + gstate" where
  "selectPart tableAliases g part =
     (case match fl_i rx_as (trim part) of
        Some asMatch \<Rightarrow>
          (case extractTableColumnReferences (trim (grp_str asMatch 1)) tableAliases None [] of
             Inl e \<Rightarrow> Inl e
           | Inr res \<Rightarrow>
               Inr (aliasedPart g (trim (grp_str asMatch 1))
                      (toLowerCase (trim (grp_str asMatch 2))) (snd res)))
      | None \<Rightarrow>
          (case extractTableColumnReferences (trim part) tableAliases None [] of
             Inl e \<Rightarrow> Inl e
           | Inr res \<Rightarrow> Inr (plainPart g (trim part) (snd res))))"

fun select_loop :: "aliases \<Rightarrow> gstate \<Rightarrow> string list \<Rightarrow> failure + gstate" where
  "select_loop a g [] = Inr g"
| "select_loop a g (part # parts) =
     (case selectPart a g part of Inl e \<Rightarrow> Inl e | Inr g' \<Rightarrow> select_loop a g' parts)"

text \<open>\<open>outputColumns.forEach\<close>: the body for one output name.\<close>

definition outputStep :: "gstate \<Rightarrow> string \<Rightarrow> gstate" where
  "outputStep g outputName =
     (let isAliasNode = (outputName \<in> snd ` set (resolvedColumnAliases g))
      in if isAliasNode \<and> aliasNodeIdMap g outputName = None
         then (let nodeId = ''alias_'' @ decimal (nodeIdCounter g)
               in push_edge
                    (g\<lparr>nodeIdCounter := Suc (nodeIdCounter g),
                       nodes := nodes g @ [\<lparr>n_id = nodeId, n_name = outputName, n_type = Column,
                                            n_originalQualifiedName = None, n_isAlias = True\<rparr>],
                       aliasNodeIdMap := (aliasNodeIdMap g)(outputName \<mapsto> nodeId)\<rparr>)
                    nodeId mainQueryNodeId FlowsTo None)
         else if \<not> isAliasNode \<and> columnNodeIdMap g outputName \<noteq> None
                   \<and> outputName \<notin> set (selectedOriginalQualifiedColumns g)
         then (case truthy (columnNodeIdMap g outputName) of
                 Some qualifiedColNodeId \<Rightarrow> push_edge g qualifiedColNodeId mainQueryNodeId FlowsTo None
               | None \<Rightarrow> g)
         else if outputName = ''*'' \<and> columnNodeIdMap g ''*'' \<noteq> None
         then (case columnNodeIdMap g ''*'' of
                 Some starId \<Rightarrow> push_edge g starId mainQueryNodeId FlowsTo None
               | None \<Rightarrow> g)
         else g)"

text \<open>\<open>Object.entries(tableColumnReferences).forEach\<close>: the body for one entry, and inside
  it the body of \<open>columns.forEach\<close> for one column.\<close>

definition providesColumn :: "string \<Rightarrow> string \<Rightarrow> gstate \<Rightarrow> string \<Rightarrow> gstate" where
  "providesColumn tableName tableNodeId g columnName =
     (case truthy (columnNodeIdMap g (toLowerCase (tableName @ ''.'' @ columnName))) of
        Some qualifiedColNodeId \<Rightarrow> push_edge g tableNodeId qualifiedColNodeId Provides None
      | None \<Rightarrow> g)"

definition providesStep :: "gstate \<Rightarrow> string \<times> string list \<Rightarrow> gstate" where
  "providesStep g entry =
     (case truthy (nodeMap g (toLowerCase (fst entry))) of
        Some tableNodeId \<Rightarrow> foldl (providesColumn (fst entry) tableNodeId) g (snd entry)
      | None \<Rightarrow> g)"

text \<open>\<open>selectedOriginalQualifiedColumns.forEach\<close>: the body for one name.\<close>

definition selectedStep :: "gstate \<Rightarrow> string \<Rightarrow> gstate" where
  "selectedStep g qualifiedColName =
     (case truthy (columnNodeIdMap g qualifiedColName) of
        Some qualifiedColNodeId \<Rightarrow>
          (case truthy (map_of (resolvedColumnAliases g) qualifiedColName) of
             Some aliasName \<Rightarrow>
               (case truthy (aliasNodeIdMap g aliasName) of
                  Some aliasColNodeId \<Rightarrow> push_edge g qualifiedColNodeId aliasColNodeId FlowsTo None
                | None \<Rightarrow> g)
           | None \<Rightarrow>
               if qualifiedColName \<in> set (outputColumns g)
                    \<or> split_pop qualifiedColName \<in> set (outputColumns g)
               then (if list_ex (\<lambda>e. e_source e = qualifiedColNodeId \<and> e_target e = mainQueryNodeId
                                       \<and> e_type e = FlowsTo) (edges g)
                     then g
                     else push_edge g qualifiedColNodeId mainQueryNodeId FlowsTo None)
               else g)
      | None \<Rightarrow> g)"

text \<open>\<open>joinConditions.forEach\<close>: the body for one condition.\<close>

definition joinStep :: "gstate \<Rightarrow> string \<times> string \<Rightarrow> gstate" where
  "joinStep g condition =
     (if fst condition \<noteq> [] \<and> snd condition \<noteq> []
      then (case truthy (columnNodeIdMap g (toLowerCase (fst condition))) of
              Some leftNodeId \<Rightarrow>
                (case truthy (columnNodeIdMap g (toLowerCase (snd condition))) of
                   Some rightNodeId \<Rightarrow>
                     push_edge (push_edge g leftNodeId rightNodeId Uses (Some ''on_join''))
                       rightNodeId leftNodeId Uses (Some ''on_join'')
                 | None \<Rightarrow> g)
            | None \<Rightarrow> g)
      else g)"

text \<open>The WHERE clause.\<close>

definition constrainStep :: "gstate \<Rightarrow> string \<Rightarrow> gstate" where
  "constrainStep g qualifiedColName =
     (case truthy (columnNodeIdMap g (toLowerCase qualifiedColName)) of
        Some colNodeId \<Rightarrow> push_edge g colNodeId mainQueryNodeId Constrains None
      | None \<Rightarrow> g)"

definition whereStep :: "string \<Rightarrow> aliases \<Rightarrow> gstate \<Rightarrow> failure + gstate" where
  "whereStep sqlQuery tableAliases g =
     (case match fl_si rx_where sqlQuery of
        None \<Rightarrow> Inr g
      | Some m \<Rightarrow>
          (case truthy (grp m 1) of
             None \<Rightarrow> Inr g
           | Some whereClause \<Rightarrow>
               (case extractTableColumnReferences whereClause tableAliases None [] of
                  Inl e \<Rightarrow> Inl e
                | Inr res \<Rightarrow> Inr (foldl constrainStep g (snd res)))))"

text \<open>The UPDATE and INSERT statements.\<close>

definition modifiesStep :: "string \<Rightarrow> rx \<Rightarrow> string \<Rightarrow> gstate \<Rightarrow> gstate" where
  "modifiesStep word r sqlQuery g =
     (if includes_str (toUpperCase sqlQuery) word
      then (case match fl_i r sqlQuery of
              Some m \<Rightarrow>
                (case truthy (nodeMap g (toLowerCase (grp_str m 1))) of
                   Some tableNodeId \<Rightarrow> push_edge g mainQueryNodeId tableNodeId Modifies None
                 | None \<Rightarrow> g)
            | None \<Rightarrow> g)
      else g)"

definition selectClauseParts :: "string \<Rightarrow> string list" where
  "selectClauseParts sqlQuery =
     (case match fl_si rx_select sqlQuery of
        None \<Rightarrow> []
      | Some m \<Rightarrow> (case truthy (grp m 1) of None \<Rightarrow> [] | Some c \<Rightarrow> splitSelectClause c))"

text \<open>
  The method, phase by phase: the query node; the table aliases; a node for each table
  of the parser; the qualified references of the whole query and a node for each; the
  parts of the SELECT clause; the alias nodes and the flows of the output columns; the
  \<open>provides\<close> edges; the flows of the selected columns; the join conditions; the WHERE
  clause; UPDATE and INSERT.
\<close>

definition addNodes :: "string list \<Rightarrow> string list \<Rightarrow> gstate" where
  "addNodes tableNames allQualifiedColumnNames =
     foldl addQualifiedColumn (foldl addTable init_state tableNames) allQualifiedColumnNames"

definition outputLoop :: "gstate \<Rightarrow> gstate" where
  "outputLoop g = foldl outputStep g (outputColumns g)"

definition selectedLoop :: "gstate \<Rightarrow> gstate" where
  "selectedLoop g = foldl selectedStep g (selectedOriginalQualifiedColumns g)"

definition tableColumnReferences :: "tcmap option \<times> string list \<Rightarrow> tcmap" where
  "tableColumnReferences refs = (case fst refs of Some t \<Rightarrow> t | None \<Rightarrow> [])"

definition graph_of :: "gstate \<Rightarrow> graph" where
  "graph_of g = \<lparr>g_nodes = nodes g, g_edges = edges g\<rparr>"

definition generateVisualizationData :: "string \<Rightarrow> parse_result \<Rightarrow> failure + graph" where
  "generateVisualizationData sqlQuery parserResult =
     (case extractTableAliases sqlQuery of
        Inl e \<Rightarrow> Inl e
      | Inr tableAliases \<Rightarrow>
     (case extractTableColumnReferences sqlQuery tableAliases (Some []) [] of
        Inl e \<Rightarrow> Inl e
      | Inr refs \<Rightarrow>
     (case select_loop tableAliases (addNodes (tables parserResult) (snd refs))
             (selectClauseParts sqlQuery) of
        Inl e \<Rightarrow> Inl e
      | Inr g3 \<Rightarrow>
     (case extractJoinConditions sqlQuery tableAliases of
        Inl e \<Rightarrow> Inl e
      | Inr joinConditions \<Rightarrow>
     (case whereStep sqlQuery tableAliases
             (foldl joinStep
                (selectedLoop (foldl providesStep (outputLoop g3) (tableColumnReferences refs)))
                joinConditions) of
        Inl e \<Rightarrow> Inl e
      | Inr g8 \<Rightarrow>
          Inr (graph_of (modifiesStep ''INSERT INTO'' rx_insert sqlQuery
                           (modifiesStep ''UPDATE'' rx_update sqlQuery g8))))))))"

subsection \<open>parseSQLAndVisualize and the edges that visualizeData draws\<close>

text \<open>\<open>parseSQLAndVisualize\<close> trims the text of the input field, rejects an empty one,
  and hands the graph of \<open>generateVisualizationData\<close> on unchanged
  (\<open>validateAndNormalizeData\<close> returns its argument).\<close>

definition parseSQLAndVisualize :: "string \<Rightarrow> failure + graph" where
  "parseSQLAndVisualize input =
     (let sqlInput = trim input
      in if sqlInput = [] then Inl EmptyInput
         else (case parseSQL sqlInput of
                 Inl e \<Rightarrow> Inl e
               | Inr parserResult \<Rightarrow> generateVisualizationData sqlInput parserResult))"

text \<open>\<open>validEdges\<close> in \<open>visualizeData\<close>\<close>

definition validEdges :: "graph \<Rightarrow> edge list" where
  "validEdges d =
     filter (\<lambda>e. list_ex (\<lambda>n. n_id n = e_source e) (g_nodes d)
                  \<and> list_ex (\<lambda>n. n_id n = e_target e) (g_nodes d)) (g_edges d)"

section \<open>The fallback extractor createSampleDataFromSQL\<close>

text \<open>
  Another variant of the visualizer in the repository asks a remote service for the
  graph and, when the answer has no nodes, builds the graph itself in
  \<open>createSampleDataFromSQL\<close>.  Its nodes and edges carry an id, a name and a type only.
  The method first calls the \<open>parseSQL\<close> of that variant and does not use its result;
  that parser keeps what it finds in arrays and loops over patterns that match no empty
  text, so the call returns for every text and is left out here.
\<close>

record snode =
  s_id :: string
  s_name :: string
  s_type :: node_type

record sedge =
  s_source :: string
  s_target :: string
  s_kind :: edge_type

record sgraph =
  s_nodes :: "snode list"
  s_edges :: "sedge list"

text \<open>\<open>/^(.*?)\s+AS\s+([a-zA-Z_][a-zA-Z0-9_]*)/i\<close> and \<open>/^([a-zA-Z_][a-zA-Z0-9_]*)$/\<close>\<close>

definition rx_as_prefix :: rx where
  "rx_as_prefix = seqs [Bol, Grp 1 (LazyStar Dot), ws1, Lit ''AS'', ws1, Grp 2 ident]"

definition rx_simple_column :: rx where
  "rx_simple_column = seqs [Bol, Grp 1 ident, Eol]"

text \<open>
  \<open>/WHERE\s+(.*?)(?:\s+GROUP\s+BY|\s+ORDER\s+BY|\s+HAVING|\s+LIMIT|\s*;|\s*$)/si\<close>,
  \<open>/GROUP\s+BY\s+(.*?)(?:\s+HAVING|\s+ORDER\s+BY|\s+LIMIT|\s*;|\s*$)/si\<close>,
  \<open>/ORDER\s+BY\s+(.*?)(?:\s+LIMIT|\s*;|\s*$)/si\<close> and
  \<open>/HAVING\s+(.*?)(?:\s+ORDER\s+BY|\s+LIMIT|\s*;|\s*$)/si\<close>
\<close>

definition rx_where_clause :: rx where
  "rx_where_clause =
     seqs [Lit ''WHERE'', ws1, Grp 1 (LazyStar Dot),
           alts [seqs [ws1, Lit ''GROUP'', ws1, Lit ''BY''], seqs [ws1, Lit ''ORDER'', ws1, Lit ''BY''],
                 Seq ws1 (Lit ''HAVING''), Seq ws1 (Lit ''LIMIT''), Seq ws0 (Lit '';''), Seq ws0 Eol]]"

definition rx_group_by :: rx where
  "rx_group_by =
     seqs [Lit ''GROUP'', ws1, Lit ''BY'', ws1, Grp 1 (LazyStar Dot),
           alts [Seq ws1 (Lit ''HAVING''), seqs [ws1, Lit ''ORDER'', ws1, Lit ''BY''],
                 Seq ws1 (Lit ''LIMIT''), Seq ws0 (Lit '';''), Seq ws0 Eol]]"

definition rx_order_by :: rx where
  "rx_order_by =
     seqs [Lit ''ORDER'', ws1, Lit ''BY'', ws1, Grp 1 (LazyStar Dot),
           alts [Seq ws1 (Lit ''LIMIT''), Seq ws0 (Lit '';''), Seq ws0 Eol]]"

definition rx_having :: rx where
  "rx_having =
     seqs [Lit ''HAVING'', ws1, Grp 1 (LazyStar Dot),
           alts [seqs [ws1, Lit ''ORDER'', ws1, Lit ''BY''], Seq ws1 (Lit ''LIMIT''),
                 Seq ws0 (Lit '';''), Seq ws0 Eol]]"

text \<open>\<open>/(?:INNER\s+JOIN|...|JOIN)\s+[a-zA-Z_][a-zA-Z0-9_]*(?:\s+(?:AS\s+)?[a-zA-Z_][a-zA-Z0-9_]*)?\s+ON\s+(.*?)(?=\s+(?:INNER\s+JOIN|LEFT\s+JOIN|RIGHT\s+JOIN|FULL\s+JOIN|JOIN)|WHERE|GROUP\s+BY|ORDER\s+BY|HAVING|LIMIT|;|$)/gi\<close>\<close>

definition rx_join_on_aliases :: rx where
  "rx_join_on_aliases =
     seqs [join_kw, ws1, ident, Opt (seqs [ws1, Opt (Seq (Lit ''AS'') ws1), ident]), ws1,
           Lit ''ON'', ws1, Grp 1 (LazyStar Dot),
           Ahead (alts [Seq ws1 join_kw, Lit ''WHERE'', seqs [Lit ''GROUP'', ws1, Lit ''BY''],
                        seqs [Lit ''ORDER'', ws1, Lit ''BY''], Lit ''HAVING'', Lit ''LIMIT'',
                        Lit '';'', Eol])]"

text \<open>\<open>isValidColumnName\<close> of this visualizer: it trims the name before the tests.\<close>

definition isValidColumnName_vis :: "string \<Rightarrow> bool" where
  "isValidColumnName_vis name =
     (name \<noteq> [] \<and> test fl_none rx_ident_only (trim name) \<and> \<not> isSQLKeyword (trim name))"

text \<open>\<open>extractTableInfoWithAliases\<close>\<close>

record table_info =
  ti_tableName :: string
  ti_alias :: string
  ti_fullName :: string

definition table_entry :: "rmatch_result \<Rightarrow> table_info" where
  "table_entry m =
     \<lparr>ti_tableName = split_pop (grp_str m 1),
      ti_alias = toLowerCase (case truthy (grp m 2) of
                                Some a \<Rightarrow> a
                              | None \<Rightarrow> split_pop (grp_str m 1)),
      ti_fullName = grp_str m 1\<rparr>"

definition join_entry :: "table_info list \<Rightarrow> rmatch_result \<Rightarrow> table_info list" where
  "join_entry tableInfo m =
     (if list_ex (\<lambda>t. ti_tableName t = split_pop (grp_str m 1)) tableInfo then tableInfo
      else tableInfo @ [table_entry m])"

definition extractTableInfoWithAliases :: "string \<Rightarrow> failure + table_info list" where
  "extractTableInfoWithAliases sql =
     (case exec_loop fl_i rx_join_alias sql of
        Inl e \<Rightarrow> Inl e
      | Inr ms \<Rightarrow>
          Inr (foldl join_entry
                 (case match fl_i rx_from_alias sql of None \<Rightarrow> [] | Some m \<Rightarrow> [table_entry m])
                 ms))"

text \<open>\<open>aliasToTableMap\<close>\<close>

definition aliasToTableMap :: "table_info list \<Rightarrow> aliases" where
  "aliasToTableMap tableInfo =
     foldl (\<lambda>a t. aliases_set a (ti_alias t) (ti_tableName t)) Map.empty tableInfo"

text \<open>\<open>extractColumnNamesFromExpression\<close>\<close>

definition extractColumnNamesFromExpression :: "string \<Rightarrow> failure + string list" where
  "extractColumnNamesFromExpression expression =
     (case exec_loop fl_none rx_table_column expression of
        Inl e \<Rightarrow> Inl e
      | Inr ms \<Rightarrow>
          Inr (if ms = []
               then (case match fl_none rx_simple_column expression of
                       None \<Rightarrow> []
                     | Some m \<Rightarrow> [grp_str m 1])
               else map (\<lambda>m. grp_str m 2) ms))"

text \<open>\<open>extractColumnsWithAliases\<close>: the body of \<open>parts.forEach\<close> for one part, the loop, and
  the method.  \<open>[...new Set(columns)]\<close> keeps the first occurrence of each name.\<close>

definition columnsPart :: "string list \<Rightarrow> string \<Rightarrow> failure + string list" where
  "columnsPart columns part =
     (if trim part = ''*'' then Inr columns
      else case (if includes_str (toUpperCase (trim part)) '' AS ''
                 then match fl_i rx_as_prefix (trim part) else None) of
             Some asMatch \<Rightarrow>
               (case extractColumnNamesFromExpression (trim (grp_str asMatch 1)) of
                  Inl e \<Rightarrow> Inl e
                | Inr sourceColumns \<Rightarrow>
                    Inr (foldl push_new (columns @ [trim (grp_str asMatch 2)]) sourceColumns))
           | None \<Rightarrow>
               (case extractColumnNamesFromExpression (trim part) of
                  Inl e \<Rightarrow> Inl e
                | Inr columnNames \<Rightarrow> Inr (foldl push_new columns columnNames)))"

fun columns_loop :: "string list \<Rightarrow> string list \<Rightarrow> failure + string list" where
  "columns_loop columns [] = Inr columns"
| "columns_loop columns (part # parts) =
     (case columnsPart columns part of
        Inl e \<Rightarrow> Inl e
      | Inr columns' \<Rightarrow> columns_loop columns' parts)"

definition extractColumnsWithAliases :: "string \<Rightarrow> failure + string list" where
  "extractColumnsWithAliases sql =
     (case match fl_si rx_select sql of
        None \<Rightarrow> Inr []
      | Some m \<Rightarrow>
          (case extractTableInfoWithAliases sql of
             Inl e \<Rightarrow> Inl e
           | Inr tableInfo \<Rightarrow>
               (case columns_loop [] (splitSelectClause (grp_str m 1)) of
                  Inl e \<Rightarrow> Inl e
                | Inr columns \<Rightarrow> Inr (foldl push_new [] columns))))"

text \<open>\<open>if (!m[t]) m[t] = []; m[t].push(c)\<close>\<close>

definition tcm_push :: "tcmap \<Rightarrow> string \<Rightarrow> string \<Rightarrow> failure + tcmap" where
  "tcm_push m t c =
     (case map_of m t of
        Some cs \<Rightarrow> Inr (AList.update t (cs @ [c]) m)
      | None \<Rightarrow> if inherited t \<noteq> None then Inl TypeError else Inr (m @ [(t, [c])]))"

text \<open>\<open>extractTableColumnReferencesWithAliases\<close>\<close>

fun refs_loop :: "aliases \<Rightarrow> rmatch_result list \<Rightarrow> tcmap \<Rightarrow> failure + tcmap" where
  "refs_loop a [] tableColumnMap = Inr tableColumnMap"
| "refs_loop a (m # ms) tableColumnMap =
     (case tcm_add tableColumnMap
             (resolve_alias a (toLowerCase (grp_str m 1)) (toLowerCase (grp_str m 1)))
             (grp_str m 2) of
        Inl e \<Rightarrow> Inl e
      | Inr tableColumnMap' \<Rightarrow> refs_loop a ms tableColumnMap')"

definition extractTableColumnReferencesWithAliases ::
  "string \<Rightarrow> aliases \<Rightarrow> tcmap \<Rightarrow> failure + tcmap" where
  "extractTableColumnReferencesWithAliases expression a tableColumnMap =
     (case exec_loop fl_none rx_table_column expression of
        Inl e \<Rightarrow> Inl e
      | Inr ms \<Rightarrow> refs_loop a ms tableColumnMap)"

text \<open>\<open>extractColumnsFromClausesWithAliases\<close>: one of the four clauses, the loop over the
  JOIN conditions, and the method.\<close>

definition clauseRefs :: "rx \<Rightarrow> string \<Rightarrow> aliases \<Rightarrow> tcmap \<Rightarrow> failure + tcmap" where
  "clauseRefs r sql a tableColumnMap =
     (case match fl_si r sql of
        None \<Rightarrow> Inr tableColumnMap
      | Some m \<Rightarrow> extractTableColumnReferencesWithAliases (grp_str m 1) a tableColumnMap)"

fun joinRefs :: "aliases \<Rightarrow> rmatch_result list \<Rightarrow> tcmap \<Rightarrow> failure + tcmap" where
  "joinRefs a [] tableColumnMap = Inr tableColumnMap"
| "joinRefs a (m # ms) tableColumnMap =
     (case extractTableColumnReferencesWithAliases (grp_str m 1) a tableColumnMap of
        Inl e \<Rightarrow> Inl e
      | Inr tableColumnMap' \<Rightarrow> joinRefs a ms tableColumnMap')"

definition extractColumnsFromClausesWithAliases ::
  "string \<Rightarrow> aliases \<Rightarrow> tcmap \<Rightarrow> failure + tcmap" where
  "extractColumnsFromClausesWithAliases sql a tableColumnMap =
     (case clauseRefs rx_where_clause sql a tableColumnMap of
        Inl e \<Rightarrow> Inl e
      | Inr m1 \<Rightarrow>
     (case clauseRefs rx_group_by sql a m1 of
        Inl e \<Rightarrow> Inl e
      | Inr m2 \<Rightarrow>
     (case clauseRefs rx_order_by sql a m2 of
        Inl e \<Rightarrow> Inl e
      | Inr m3 \<Rightarrow>
     (case clauseRefs rx_having sql a m3 of
        Inl e \<Rightarrow> Inl e
      | Inr m4 \<Rightarrow>
     (case exec_loop fl_i rx_join_on_aliases sql of
        Inl e \<Rightarrow> Inl e
      | Inr ms \<Rightarrow> joinRefs a ms m4)))))"

text \<open>\<open>parseTableColumnRelationshipsWithAliases\<close>: for \<open>*\<close> the loop over the tables; the
  attribution of an unqualified column to the first table; the body of
  \<open>columns.forEach\<close> for one item of the SELECT clause; the loop; the method.\<close>

fun star_loop :: "table_info list \<Rightarrow> tcmap \<Rightarrow> failure + tcmap" where
  "star_loop [] tableColumnMap = Inr tableColumnMap"
| "star_loop (t # ts) tableColumnMap =
     (case tcm_push tableColumnMap (ti_tableName t) ''*'' of
        Inl e \<Rightarrow> Inl e
      | Inr tableColumnMap' \<Rightarrow> star_loop ts tableColumnMap')"

definition attributeToMainTable :: "table_info list \<Rightarrow> tcmap \<Rightarrow> string \<Rightarrow> failure + tcmap" where
  "attributeToMainTable tableInfo tableColumnMap trimmedColumn =
     (case tableInfo of
        [] \<Rightarrow> Inr tableColumnMap
      | t # ts \<Rightarrow>
          if ti_tableName t = [] then Inr tableColumnMap
          else tcm_add tableColumnMap (ti_tableName t) trimmedColumn)"

definition relationPart :: "table_info list \<Rightarrow> aliases \<Rightarrow> tcmap \<Rightarrow> string \<Rightarrow> failure + tcmap" where
  "relationPart tableInfo a tableColumnMap column =
     (if trim column = ''*'' then star_loop tableInfo tableColumnMap
      else case extractTableColumnReferencesWithAliases (trim column) a tableColumnMap of
             Inl e \<Rightarrow> Inl e
           | Inr tableColumnMap' \<Rightarrow>
               if CHR ''.'' \<notin> set (trim column) \<and> isValidColumnName_vis (trim column)
               then attributeToMainTable tableInfo tableColumnMap' (trim column)
               else Inr tableColumnMap')"

fun relation_loop ::
  "table_info list \<Rightarrow> aliases \<Rightarrow> tcmap \<Rightarrow> string list \<Rightarrow> failure + tcmap" where
  "relation_loop tableInfo a tableColumnMap [] = Inr tableColumnMap"
| "relation_loop tableInfo a tableColumnMap (column # columns) =
     (case relationPart tableInfo a tableColumnMap column of
        Inl e \<Rightarrow> Inl e
      | Inr tableColumnMap' \<Rightarrow> relation_loop tableInfo a tableColumnMap' columns)"

definition parseTableColumnRelationshipsWithAliases ::
  "string \<Rightarrow> table_info list \<Rightarrow> failure + tcmap" where
  "parseTableColumnRelationshipsWithAliases sql tableInfo =
     (case match fl_si rx_select sql of
        None \<Rightarrow> Inr []
      | Some selectMatch \<Rightarrow>
          (case relation_loop tableInfo (aliasToTableMap tableInfo) []
                  (splitSelectClause (grp_str selectMatch 1)) of
             Inl e \<Rightarrow> Inl e
           | Inr tableColumnMap \<Rightarrow>
               extractColumnsFromClausesWithAliases sql (aliasToTableMap tableInfo) tableColumnMap))"

text \<open>\<open>createRelationshipsFromSQL\<close>.  \<open>find_index\<close> is \<open>findIndex\<close>, with \<open>None\<close> for \<open>-1\<close>.\<close>

fun find_index :: "('a \<Rightarrow> bool) \<Rightarrow> 'a list \<Rightarrow> nat option" where
  "find_index P [] = None"
| "find_index P (x # xs) = (if P x then Some 0 else map_option Suc (find_index P xs))"

definition table_id :: "nat \<Rightarrow> string" where
  "table_id i = ''table_'' @ decimal i"

definition column_id :: "nat \<Rightarrow> string" where
  "column_id i = ''column_'' @ decimal i"

definition providesEdge :: "string list \<Rightarrow> nat \<Rightarrow> sedge list \<Rightarrow> string \<Rightarrow> sedge list" where
  "providesEdge columns tableIndex es columnName =
     (case find_index (\<lambda>c. toLowerCase c = toLowerCase columnName) columns of
        None \<Rightarrow> es
      | Some columnIndex \<Rightarrow>
          if list_ex (\<lambda>e. s_source e = table_id tableIndex \<and> s_target e = column_id columnIndex
                           \<and> s_kind e = Provides) es
          then es
          else es @ [\<lparr>s_source = table_id tableIndex, s_target = column_id columnIndex,
                      s_kind = Provides\<rparr>])"

definition providesEntry ::
  "string list \<Rightarrow> string list \<Rightarrow> sedge list \<Rightarrow> string \<times> string list \<Rightarrow> sedge list" where
  "providesEntry tableNames columns es entry =
     (case find_index (\<lambda>t. toLowerCase t = toLowerCase (fst entry)) tableNames of
        None \<Rightarrow> es
      | Some tableIndex \<Rightarrow> foldl (providesEdge columns tableIndex) es (snd entry))"

definition defaultEdges :: "string list \<Rightarrow> string list \<Rightarrow> sedge list \<Rightarrow> sedge list" where
  "defaultEdges tableNames columns es =
     (if es = [] \<and> tableNames \<noteq> [] \<and> columns \<noteq> []
      then map (\<lambda>i. \<lparr>s_source = table_id 0, s_target = column_id i, s_kind = Provides\<rparr>)
             (filter (\<lambda>i. columns ! i \<noteq> ''*'') [0..<length columns])
      else es)"

definition queryEdges :: "snode list \<Rightarrow> string list \<Rightarrow> string list \<Rightarrow> sedge list" where
  "queryEdges ns tableNames columns =
     (if list_ex (\<lambda>n. s_id n = ''main_query'') ns
      then map (\<lambda>i. \<lparr>s_source = column_id i, s_target = ''main_query'', s_kind = FlowsTo\<rparr>)
             [0..<length columns]
           @ map (\<lambda>i. \<lparr>s_source = table_id i, s_target = ''main_query'', s_kind = Sources\<rparr>)
               [0..<length tableNames]
      else [])"

definition createRelationshipsFromSQL ::
  "sgraph \<Rightarrow> string \<Rightarrow> string list \<Rightarrow> string list \<Rightarrow> failure + sgraph" where
  "createRelationshipsFromSQL normalized sql tableNames columns =
     (case extractTableInfoWithAliases sql of
        Inl e \<Rightarrow> Inl e
      | Inr tableInfo \<Rightarrow>
          (case parseTableColumnRelationshipsWithAliases sql tableInfo of
             Inl e \<Rightarrow> Inl e
           | Inr tableColumnMap \<Rightarrow>
               Inr (normalized\<lparr>s_edges :=
                      defaultEdges tableNames columns
                        (foldl (providesEntry tableNames columns) (s_edges normalized) tableColumnMap)
                      @ queryEdges (s_nodes normalized) tableNames columns\<rparr>)))"

text \<open>\<open>createSampleDataFromSQL\<close>, for the object \<open>normalized\<close> it is given and the text of
  the input field.\<close>

definition sampleNodes :: "string list \<Rightarrow> string list \<Rightarrow> snode list" where
  "sampleNodes uniqueTables columnsWithAliases =
     map (\<lambda>i. \<lparr>s_id = table_id i, s_name = uniqueTables ! i, s_type = Table\<rparr>)
       [0..<length uniqueTables]
     @ map (\<lambda>i. \<lparr>s_id = column_id i, s_name = columnsWithAliases ! i, s_type = Column\<rparr>)
         [0..<length columnsWithAliases]
     @ (if uniqueTables \<noteq> [] \<or> columnsWithAliases \<noteq> []
        then [\<lparr>s_id = ''main_query'', s_name = ''Main Query'', s_type = Query\<rparr>] else [])"

definition createSampleDataFromSQL :: "sgraph \<Rightarrow> string \<Rightarrow> failure + sgraph" where
  "createSampleDataFromSQL normalized sqlInput =
     (case extractTableInfoWithAliases sqlInput of
        Inl e \<Rightarrow> Inl e
      | Inr tableInfo \<Rightarrow>
          (case extractColumnsWithAliases sqlInput of
             Inl e \<Rightarrow> Inl e
           | Inr columnsWithAliases \<Rightarrow>
               createRelationshipsFromSQL
                 (normalized\<lparr>s_nodes :=
                    s_nodes normalized
                    @ sampleNodes (foldl push_new [] (map ti_tableName tableInfo)) columnsWithAliases\<rparr>)
                 sqlInput (foldl push_new [] (map ti_tableName tableInfo)) columnsWithAliases))"

section \<open>Notions for the properties\<close>

text \<open>What a run returns, for statements about a concrete query: the node list and the
  edge list of the graph, \<open>None\<close> when no graph is returned.\<close>

definition graph_nodes :: "failure + graph \<Rightarrow> node list option" where
  "graph_nodes r = (case r of Inl e \<Rightarrow> None | Inr g \<Rightarrow> Some (g_nodes g))"

definition graph_edges :: "failure + graph \<Rightarrow> edge list option" where
  "graph_edges r = (case r of Inl e \<Rightarrow> None | Inr g \<Rightarrow> Some (g_edges g))"

text \<open>The graphs of three sample queries: \<open>SELECT a.id FROM orders a\<close>,
  \<open>SELECT 1.count FROM t\<close> with its column node \<open>count\<close>, and
  \<open>SELECT a.x, y, b.z AS w FROM a JOIN b ON a.x = b.x\<close>.\<close>

definition graph_select_alias :: graph where
  "graph_select_alias =
     \<lparr>g_nodes =
        [\<lparr>n_id = ''query_main'', n_name = ''Main Query'', n_type = Query,
           n_originalQualifiedName = None, n_isAlias = False\<rparr>,
         \<lparr>n_id = ''table_0'', n_name = ''orders'', n_type = Table,
           n_originalQualifiedName = None, n_isAlias = False\<rparr>,
         \<lparr>n_id = ''col_1'', n_name = ''orders > id'', n_type = Column,
           n_originalQualifiedName = Some ''orders.id'', n_isAlias = False\<rparr>],
      g_edges =
        [\<lparr>e_source = ''table_0'', e_target = ''col_1'', e_type = Provides, e_label = None\<rparr>,
         \<lparr>e_source = ''col_1'', e_target = ''query_main'', e_type = FlowsTo, e_label = None\<rparr>]\<rparr>"

definition graph_keyword_dotted :: graph where
  "graph_keyword_dotted =
     \<lparr>g_nodes =
        [\<lparr>n_id = ''query_main'', n_name = ''Main Query'', n_type = Query,
           n_originalQualifiedName = None, n_isAlias = False\<rparr>,
         \<lparr>n_id = ''table_0'', n_name = ''t'', n_type = Table,
           n_originalQualifiedName = None, n_isAlias = False\<rparr>,
         \<lparr>n_id = ''col_1'', n_name = ''count'', n_type = Column,
           n_originalQualifiedName = Some ''count'', n_isAlias = False\<rparr>],
      g_edges =
        [\<lparr>e_source = ''col_1'', e_target = ''query_main'', e_type = FlowsTo, e_label = None\<rparr>]\<rparr>"

definition count_node :: node where
  "count_node = \<lparr>n_id = ''col_1'', n_name = ''count'', n_type = Column,
                  n_originalQualifiedName = Some ''count'', n_isAlias = False\<rparr>"

definition graph_join_alias :: graph where
  "graph_join_alias =
     \<lparr>g_nodes =
        [\<lparr>n_id = ''query_main'', n_name = ''Main Query'', n_type = Query,
           n_originalQualifiedName = None, n_isAlias = False\<rparr>,
         \<lparr>n_id = ''table_0'', n_name = ''a'', n_type = Table,
           n_originalQualifiedName = None, n_isAlias = False\<rparr>,
         \<lparr>n_id = ''table_1'', n_name = ''b'', n_type = Table,
           n_originalQualifiedName = None, n_isAlias = False\<rparr>,
         \<lparr>n_id = ''col_2'', n_name = ''a > x'', n_type = Column,
           n_originalQualifiedName = Some ''a.x'', n_isAlias = False\<rparr>,
         \<lparr>n_id = ''col_3'', n_name = ''b > z'', n_type = Column,
           n_originalQualifiedName = Some ''b.z'', n_isAlias = False\<rparr>,
         \<lparr>n_id = ''col_4'', n_name = ''b > x'', n_type = Column,
           n_originalQualifiedName = Some ''b.x'', n_isAlias = False\<rparr>,
         \<lparr>n_id = ''col_5'', n_name = ''y'', n_type = Column,
           n_originalQualifiedName = Some ''y'', n_isAlias = False\<rparr>,
         \<lparr>n_id = ''alias_6'', n_name = ''w'', n_type = Column,
           n_originalQualifiedName = None, n_isAlias = True\<rparr>],
      g_edges =
        [\<lparr>e_source = ''alias_6'', e_target = ''query_main'', e_type = FlowsTo, e_label = None\<rparr>,
         \<lparr>e_source = ''table_0'', e_target = ''col_2'', e_type = Provides, e_label = None\<rparr>,
         \<lparr>e_source = ''table_1'', e_target = ''col_3'', e_type = Provides, e_label = None\<rparr>,
         \<lparr>e_source = ''table_1'', e_target = ''col_4'', e_type = Provides, e_label = None\<rparr>,
         \<lparr>e_source = ''col_2'', e_target = ''query_main'', e_type = FlowsTo, e_label = None\<rparr>,
         \<lparr>e_source = ''col_5'', e_target = ''query_main'', e_type = FlowsTo, e_label = None\<rparr>,
         \<lparr>e_source = ''col_3'', e_target = ''alias_6'', e_type = FlowsTo, e_label = None\<rparr>]\<rparr>"

text \<open>The query node that \<open>generateVisualizationData\<close> creates first.\<close>

definition query_node :: node where
  "query_node = \<lparr>n_id = mainQueryNodeId, n_name = ''Main Query'', n_type = Query,
                 n_originalQualifiedName = None, n_isAlias = False\<rparr>"

text \<open>The elements of a list whose key has not occurred before them, in their order:
  what a list filled by \<open>if (!xs.includes(x)) xs.push(x)\<close>, or a loop guarded by
  \<open>if (!map.has(key(x)))\<close>, keeps of the sequence it is given.\<close>

primrec firsts :: "('a \<Rightarrow> 'b) \<Rightarrow> 'b list \<Rightarrow> 'a list \<Rightarrow> 'a list" where
  "firsts key seen [] = []"
| "firsts key seen (x # xs) =
     (if key x \<in> set seen then firsts key seen xs else x # firsts key (key x # seen) xs)"

definition first_seen :: "('a \<Rightarrow> 'b) \<Rightarrow> 'a list \<Rightarrow> 'a list" where
  "first_seen key xs = firsts key [] xs"

text \<open>The table of a match of the FROM or JOIN pattern, \<open>match[1].split('.').pop()\<close>, and
  the qualified name \<open>table.column\<close> of a match of the reference pattern, with the
  alias of a table replaced by the table.\<close>

definition table_of :: "rmatch_result \<Rightarrow> string" where
  "table_of m = split_pop (grp_str m 1)"

definition reference :: "aliases \<Rightarrow> rmatch_result \<Rightarrow> string" where
  "reference a m =
     resolve_alias a (toLowerCase (trim (grp_str m 1))) (trim (grp_str m 1))
       @ ''.'' @ trim (grp_str m 2)"

text \<open>For a part of the SELECT clause: the expression that the loop over the parts
  examines (\<open>originalExpr\<close> when the part matches \<open>... AS alias\<close>, else \<open>trimmedPart\<close>), and
  its alias \<open>aliasName\<close>.  \<open>select_column\<close>: a part without qualified reference gives the
  column name, inferred by \<open>extractOriginalColumnFromExpression\<close> or \<open>*\<close>.
  \<open>select_alias\<close>: a part with a qualified reference gives the alias.\<close>

definition selectExpression :: "string \<Rightarrow> string" where
  "selectExpression part =
     (case match fl_i rx_as (trim part) of
        Some asMatch \<Rightarrow> trim (grp_str asMatch 1)
      | None \<Rightarrow> trim part)"

definition selectAlias :: "string \<Rightarrow> string option" where
  "selectAlias part =
     (case match fl_i rx_as (trim part) of
        Some asMatch \<Rightarrow> Some (toLowerCase (trim (grp_str asMatch 2)))
      | None \<Rightarrow> None)"

definition select_column :: "string \<Rightarrow> aliases \<Rightarrow> string \<Rightarrow> bool" where
  "select_column sqlQuery a c =
     (\<exists>part. part \<in> set (selectClauseParts sqlQuery)
        \<and> extractTableColumnReferences (selectExpression part) a None [] = Inr (None, [])
        \<and> (truthy (extractOriginalColumnFromExpression (selectExpression part)) = Some c
             \<or> trim part = ''*'' \<and> c = ''*''))"

definition select_alias :: "string \<Rightarrow> aliases \<Rightarrow> string \<Rightarrow> bool" where
  "select_alias sqlQuery a v =
     (\<exists>part r rs. part \<in> set (selectClauseParts sqlQuery)
        \<and> selectAlias part = Some v
        \<and> extractTableColumnReferences (selectExpression part) a None [] = Inr (None, r # rs))"

text \<open>The four kinds of node that the method creates after the query node: for a table
  of the parser; for a qualified reference \<open>table.column\<close>, named \<open>table > column\<close>; for
  an unqualified column of the SELECT clause; for an alias of the SELECT clause.\<close>

definition is_table_node :: "node \<Rightarrow> bool" where
  "is_table_node n = (n_type n = Table \<and> \<not> n_isAlias n)"

definition is_qualified_column_node :: "node \<Rightarrow> bool" where
  "is_qualified_column_node n =
     (n_type n = Column \<and> \<not> n_isAlias n
      \<and> (\<exists>t c. n_name n = t @ '' > '' @ c))"

definition is_select_column_node :: "string \<Rightarrow> aliases \<Rightarrow> node \<Rightarrow> bool" where
  "is_select_column_node sqlQuery a n =
     (n_type n = Column \<and> \<not> n_isAlias n \<and> n_originalQualifiedName n = Some (n_name n)
      \<and> select_column sqlQuery a (n_name n))"

definition is_select_alias_node :: "string \<Rightarrow> aliases \<Rightarrow> node \<Rightarrow> bool" where
  "is_select_alias_node sqlQuery a n =
     (n_type n = Column \<and> n_isAlias n \<and> n_originalQualifiedName n = None
      \<and> select_alias sqlQuery a (n_name n))"

text \<open>\<open>grows P g g'\<close>: the node list of \<open>g'\<close> is that of \<open>g\<close> followed by nodes that satisfy
  \<open>P\<close>.\<close>

definition grows :: "(node \<Rightarrow> bool) \<Rightarrow> gstate \<Rightarrow> gstate \<Rightarrow> bool" where
  "grows P g g' = (\<exists>X. nodes g' = nodes g @ X \<and> list_all P X)"

text \<open>
  The normalisation in the words of the specification, "collapsing consecutive
  whitespace to single spaces": every maximal run of white space becomes one space.
\<close>

function collapse_whitespace :: "string \<Rightarrow> string" where
  "collapse_whitespace [] = []"
| "collapse_whitespace (c # s) =
     (if is_space c then CHR '' '' # collapse_whitespace (dropWhile is_space s)
      else c # collapse_whitespace s)"
  by pat_completeness auto
termination
  by (relation "measure length") (auto simp: length_dropWhile_le less_Suc_eq_le)

text \<open>The ids of the nodes made so far, and the invariant of the method: the id of the
  query node and every id stored in one of the three id maps is the id of a node, and
  both ends of every edge are ids of nodes.\<close>

definition ids :: "gstate \<Rightarrow> string set" where
  "ids g = n_id ` set (nodes g)"

definition wf :: "gstate \<Rightarrow> bool" where
  "wf g = (mainQueryNodeId \<in> ids g
     \<and> (\<forall>k v. nodeMap g k = Some v \<longrightarrow> v \<in> ids g)
     \<and> (\<forall>k v. columnNodeIdMap g k = Some v \<longrightarrow> v \<in> ids g)
     \<and> (\<forall>k v. aliasNodeIdMap g k = Some v \<longrightarrow> v \<in> ids g)
     \<and> (\<forall>e \<in> set (edges g). e_source e \<in> ids g \<and> e_target e \<in> ids g))"

text \<open>An identifier, as the pattern \<open>^[a-zA-Z_][a-zA-Z0-9_]*$\<close> reads it, and the
  membership of a column in the list that a table-to-columns object holds for a table.\<close>

definition is_identifier :: "string \<Rightarrow> bool" where
  "is_identifier s =
     (case s of [] \<Rightarrow> False | x # w \<Rightarrow> in_cls IdStart x \<and> list_all (in_cls IdChar) w)"

definition has :: "tcmap \<Rightarrow> string \<Rightarrow> string \<Rightarrow> bool" where
  "has m t c = (\<exists>cs. map_of m t = Some cs \<and> c \<in> set cs)"

section \<open>Evaluation\<close>

text \<open>The character predicates on the bits of a character, for evaluation: each equation
  is proved from the definition by the 256 cases.\<close>

lemma is_upper_code [code]:
  "is_upper (Char b0 b1 b2 b3 b4 b5 b6 b7) =
     (\<not> b7 \<and> b6 \<and> \<not> b5 \<and> (b0 \<or> b1 \<or> b2 \<or> b3 \<or> b4)
      \<and> \<not> (b4 \<and> b3 \<and> (b2 \<or> (b1 \<and> b0))))"
  by (cases b0; cases b1; cases b2; cases b3; cases b4; cases b5; cases b6; cases b7;
      simp add: is_upper_def)

lemma is_lower_code [code]:
  "is_lower (Char b0 b1 b2 b3 b4 b5 b6 b7) =
     (\<not> b7 \<and> b6 \<and> b5 \<and> (b0 \<or> b1 \<or> b2 \<or> b3 \<or> b4)
      \<and> \<not> (b4 \<and> b3 \<and> (b2 \<or> (b1 \<and> b0))))"
  by (cases b0; cases b1; cases b2; cases b3; cases b4; cases b5; cases b6; cases b7;
      simp add: is_lower_def)

lemma is_digit_code [code]:
  "is_digit (Char b0 b1 b2 b3 b4 b5 b6 b7) =
     (\<not> b7 \<and> \<not> b6 \<and> b5 \<and> b4 \<and> (\<not> b3 \<or> (\<not> b2 \<and> \<not> b1)))"
  by (cases b0; cases b1; cases b2; cases b3; cases b4; cases b5; cases b6; cases b7;
      simp add: is_digit_def)

lemma is_space_code [code]:
  "is_space (Char b0 b1 b2 b3 b4 b5 b6 b7) =
     ((\<not> b7 \<and> \<not> b6 \<and> \<not> b5 \<and> \<not> b4 \<and> b3 \<and> ((\<not> b2 \<and> (b1 \<or> b0)) \<or> (b2 \<and> \<not> b1)))
      \<or> (b5 \<and> \<not> b6 \<and> \<not> b4 \<and> \<not> b3 \<and> \<not> b2 \<and> \<not> b1 \<and> \<not> b0))"
  by (cases b0; cases b1; cases b2; cases b3; cases b4; cases b5; cases b6; cases b7;
      simp add: is_space_def)

lemma is_line_terminator_code [code]:
  "is_line_terminator (Char b0 b1 b2 b3 b4 b5 b6 b7) =
     (\<not> b7 \<and> \<not> b6 \<and> \<not> b5 \<and> \<not> b4 \<and> b3 \<and> ((\<not> b2 \<and> b1 \<and> \<not> b0) \<or> (b2 \<and> \<not> b1 \<and> b0)))"
  by (cases b0; cases b1; cases b2; cases b3; cases b4; cases b5; cases b6; cases b7;
      simp add: is_line_terminator_def)

lemma is_latin_upper_code [code]:
  "is_latin_upper (Char b0 b1 b2 b3 b4 b5 b6 b7) =
     (b7 \<and> b6 \<and> \<not> b5 \<and> \<not> (b4 \<and> b2 \<and> b1 \<and> b0))"
  by (cases b0; cases b1; cases b2; cases b3; cases b4; cases b5; cases b6; cases b7;
      simp add: is_latin_upper_def)

lemma is_latin_lower_code [code]:
  "is_latin_lower (Char b0 b1 b2 b3 b4 b5 b6 b7) =
     (b7 \<and> b6 \<and> b5 \<and> \<not> (b4 \<and> b2 \<and> b1 \<and> b0))"
  by (cases b0; cases b1; cases b2; cases b3; cases b4; cases b5; cases b6; cases b7;
      simp add: is_latin_lower_def)

lemma ascii_upper_code [code]:
  "ascii_upper (Char b0 b1 b2 b3 b4 b5 b6 b7) =
     (if is_lower (Char b0 b1 b2 b3 b4 b5 b6 b7)
      then Char b0 b1 b2 b3 b4 False b6 b7 else Char b0 b1 b2 b3 b4 b5 b6 b7)"
  by (cases b0; cases b1; cases b2; cases b3; cases b4; cases b5; cases b6; cases b7;
      simp add: ascii_upper_def is_lower_def char_of_def bit_0 bit_Suc)

lemma lower_char_code [code]:
  "lower_char (Char b0 b1 b2 b3 b4 b5 b6 b7) =
     (if is_upper (Char b0 b1 b2 b3 b4 b5 b6 b7) \<or> is_latin_upper (Char b0 b1 b2 b3 b4 b5 b6 b7)
      then Char b0 b1 b2 b3 b4 True b6 b7 else Char b0 b1 b2 b3 b4 b5 b6 b7)"
  by (cases b0; cases b1; cases b2; cases b3; cases b4; cases b5; cases b6; cases b7;
      simp add: lower_char_def is_upper_def is_latin_upper_def char_of_def bit_0 bit_Suc)

lemma upper_units_code [code]:
  "upper_units (Char b0 b1 b2 b3 b4 b5 b6 b7) =
     (if b0 \<and> b1 \<and> b2 \<and> b3 \<and> b4 \<and> \<not> b5 \<and> b6 \<and> b7 then ''SS''
      else if is_lower (Char b0 b1 b2 b3 b4 b5 b6 b7) \<or> is_latin_lower (Char b0 b1 b2 b3 b4 b5 b6 b7)
      then [Char b0 b1 b2 b3 b4 False b6 b7] else [Char b0 b1 b2 b3 b4 b5 b6 b7])"
  by (cases b0; cases b1; cases b2; cases b3; cases b4; cases b5; cases b6; cases b7;
      simp add: upper_units_def is_lower_def is_latin_lower_def char_of_def bit_0 bit_Suc)

text \<open>The graphs of some concrete queries.\<close>

lemma run_select_alias:
  "parseSQLAndVisualize ''SELECT a.id FROM orders a'' =
     Inr \<lparr>g_nodes =
            [\<lparr>n_id = ''query_main'', n_name = ''Main Query'', n_type = Query,
               n_originalQualifiedName = None, n_isAlias = False\<rparr>,
             \<lparr>n_id = ''table_0'', n_name = ''orders'', n_type = Table,
               n_originalQualifiedName = None, n_isAlias = False\<rparr>,
             \<lparr>n_id = ''col_1'', n_name = ''orders > id'', n_type = Column,
               n_originalQualifiedName = Some ''orders.id'', n_isAlias = False\<rparr>],
          g_edges =
            [\<lparr>e_source = ''table_0'', e_target = ''col_1'', e_type = Provides, e_label = None\<rparr>,
             \<lparr>e_source = ''col_1'', e_target = ''query_main'', e_type = FlowsTo,
               e_label = None\<rparr>]\<rparr>"
  by code_simp

lemma run_select_star:
  "parseSQLAndVisualize ''SELECT * FROM t'' =
     Inr \<lparr>g_nodes =
            [\<lparr>n_id = ''query_main'', n_name = ''Main Query'', n_type = Query,
               n_originalQualifiedName = None, n_isAlias = False\<rparr>,
             \<lparr>n_id = ''table_0'', n_name = ''t'', n_type = Table,
               n_originalQualifiedName = None, n_isAlias = False\<rparr>,
             \<lparr>n_id = ''col_1'', n_name = ''*'', n_type = Column,
               n_originalQualifiedName = Some ''*'', n_isAlias = False\<rparr>],
          g_edges =
            [\<lparr>e_source = ''col_1'', e_target = ''query_main'', e_type = FlowsTo,
               e_label = None\<rparr>]\<rparr>"
  by code_simp

lemma run_join_at_end:
  "parseSQLAndVisualize ''SELECT a.x FROM a JOIN b ON a.x = b.y'' =
     Inr \<lparr>g_nodes =
            [\<lparr>n_id = ''query_main'', n_name = ''Main Query'', n_type = Query,
               n_originalQualifiedName = None, n_isAlias = False\<rparr>,
             \<lparr>n_id = ''table_0'', n_name = ''a'', n_type = Table,
               n_originalQualifiedName = None, n_isAlias = False\<rparr>,
             \<lparr>n_id = ''table_1'', n_name = ''b'', n_type = Table,
               n_originalQualifiedName = None, n_isAlias = False\<rparr>,
             \<lparr>n_id = ''col_2'', n_name = ''a > x'', n_type = Column,
               n_originalQualifiedName = Some ''a.x'', n_isAlias = False\<rparr>,
             \<lparr>n_id = ''col_3'', n_name = ''b > y'', n_type = Column,
               n_originalQualifiedName = Some ''b.y'', n_isAlias = False\<rparr>],
          g_edges =
            [\<lparr>e_source = ''table_0'', e_target = ''col_2'', e_type = Provides, e_label = None\<rparr>,
             \<lparr>e_source = ''table_1'', e_target = ''col_3'', e_type = Provides, e_label = None\<rparr>,
             \<lparr>e_source = ''col_2'', e_target = ''query_main'', e_type = FlowsTo,
               e_label = None\<rparr>]\<rparr>"
  by code_simp

lemma run_update:
  "parseSQLAndVisualize ''UPDATE users SET name = 1'' =
     Inr \<lparr>g_nodes =
            [\<lparr>n_id = ''query_main'', n_name = ''Main Query'', n_type = Query,
               n_originalQualifiedName = None, n_isAlias = False\<rparr>],
          g_edges = []\<rparr>"
  by code_simp

lemma run_join_where:
  "map_option (map e_type)
     (graph_edges (parseSQLAndVisualize
        ''SELECT a.x, b.y FROM a JOIN b ON a.x = b.y WHERE a.x = 1'')) =
     Some [Provides, Provides, FlowsTo, FlowsTo, Uses, Uses, Constrains]"
  by code_simp

lemma run_join_alias_without_as:
  "map_option (map e_type)
     (graph_edges (parseSQLAndVisualize
        ''SELECT u.id FROM users u JOIN orders o ON u.id = o.uid WHERE o.x = 1'')) =
     Some [Provides, Provides, Provides, FlowsTo, Constrains]"
  by code_simp

lemma run_insert_values:
  "parseSQLAndVisualize ''INSERT INTO t VALUES (1)'' =
     Inr \<lparr>g_nodes =
            [\<lparr>n_id = ''query_main'', n_name = ''Main Query'', n_type = Query,
               n_originalQualifiedName = None, n_isAlias = False\<rparr>],
          g_edges = []\<rparr>"
  by code_simp

lemma run_insert_select:
  "parseSQLAndVisualize ''INSERT INTO t SELECT a FROM t'' =
     Inr \<lparr>g_nodes =
            [\<lparr>n_id = ''query_main'', n_name = ''Main Query'', n_type = Query,
               n_originalQualifiedName = None, n_isAlias = False\<rparr>,
             \<lparr>n_id = ''table_0'', n_name = ''t'', n_type = Table,
               n_originalQualifiedName = None, n_isAlias = False\<rparr>,
             \<lparr>n_id = ''col_1'', n_name = ''a'', n_type = Column,
               n_originalQualifiedName = Some ''a'', n_isAlias = False\<rparr>],
          g_edges =
            [\<lparr>e_source = ''col_1'', e_target = ''query_main'', e_type = FlowsTo, e_label = None\<rparr>,
             \<lparr>e_source = ''query_main'', e_target = ''table_0'', e_type = Modifies,
               e_label = None\<rparr>]\<rparr>"
  by code_simp

lemma run_comment:
  "map_option (map n_name) (graph_nodes (parseSQLAndVisualize ''SELECT a FROM t -- JOIN u'')) =
     Some [''Main Query'', ''t'', ''u'', ''a'']"
  by code_simp

lemma run_keyword_table:
  "parseSQLAndVisualize ''SELECT id FROM index'' =
     Inr \<lparr>g_nodes =
            [\<lparr>n_id = ''query_main'', n_name = ''Main Query'', n_type = Query,
               n_originalQualifiedName = None, n_isAlias = False\<rparr>,
             \<lparr>n_id = ''table_0'', n_name = ''index'', n_type = Table,
               n_originalQualifiedName = None, n_isAlias = False\<rparr>,
             \<lparr>n_id = ''col_1'', n_name = ''id'', n_type = Column,
               n_originalQualifiedName = Some ''id'', n_isAlias = False\<rparr>],
          g_edges =
            [\<lparr>e_source = ''col_1'', e_target = ''query_main'', e_type = FlowsTo,
               e_label = None\<rparr>]\<rparr>"
  by code_simp

lemma run_keyword_alias:
  "map_option (map n_name) (graph_nodes (parseSQLAndVisualize ''SELECT t.a AS count FROM t'')) =
     Some [''Main Query'', ''t'', ''t > a'', ''count'']"
  by code_simp

lemma run_keyword_dotted:
  "map_option (map n_name) (graph_nodes (parseSQLAndVisualize ''SELECT 1.count FROM t'')) =
     Some [''Main Query'', ''t'', ''count'']"
  by code_simp

lemma keywords_index_count: "isSQLKeyword ''index'' \<and> isSQLKeyword ''count''"
  by code_simp

lemma gen_no_sql:
  "generateVisualizationData ''hello'' \<lparr>query = ''hello'', tables = []\<rparr> =
     Inr \<lparr>g_nodes = [query_node], g_edges = []\<rparr>"
  by code_simp

lemma gen_select_alias:
  "generateVisualizationData ''SELECT a.id FROM orders a''
       \<lparr>query = ''SELECT a.id FROM orders a'', tables = [''orders'']\<rparr> =
     Inr graph_select_alias"
  by code_simp

lemma gen_keyword_dotted:
  "generateVisualizationData ''SELECT 1.count FROM t''
       \<lparr>query = ''SELECT 1.count FROM t'', tables = [''t'']\<rparr> = Inr graph_keyword_dotted"
  by code_simp

lemma count_node_keyword:
  "count_node \<in> set (g_nodes graph_keyword_dotted) \<and> isSQLKeyword (n_name count_node)"
  by code_simp

lemma run_join_alias:
  "parseSQLAndVisualize ''SELECT a.x, y, b.z AS w FROM a JOIN b ON a.x = b.x'' =
     Inr graph_join_alias"
  by code_simp

lemma names_join_alias:
  "map n_name (g_nodes graph_join_alias) =
     [''Main Query'', ''a'', ''b'', ''a > x'', ''b > z'', ''b > x'', ''y'', ''w'']"
  by code_simp

lemma run_line_break:
  "map_option (map n_name)
     (graph_nodes (parseSQLAndVisualize (''SELECT t.a +'' @ [CHR 0x0A] @ ''t.b AS s FROM t''))) =
     Some [''Main Query'', ''t'', ''t > a'', ''t > b'']"
  by code_simp

lemma collapse_line_break:
  "collapse_whitespace (trim (''SELECT t.a +'' @ [CHR 0x0A] @ ''t.b AS s FROM t'')) =
     ''SELECT t.a + t.b AS s FROM t''"
  by code_simp

lemma run_no_line_break:
  "map_option (map n_name)
     (graph_nodes (parseSQLAndVisualize ''SELECT t.a + t.b AS s FROM t'')) =
     Some [''Main Query'', ''t'', ''t > a'', ''t > b'', ''s'']"
  by code_simp

lemma parse_spaces:
  "cleanQuery [CHR '' '', CHR ''S'', CHR ''E'', CHR ''L'', CHR ''E'', CHR ''C'', CHR ''T'',
               CHR 0x09, CHR '' '', CHR ''a'', CHR 0x0A, CHR ''F'', CHR ''R'', CHR ''O'', CHR ''M'',
               CHR '' '', CHR '' '', CHR ''t'', CHR '' ''] = ''SELECT a FROM t''"
  by code_simp

text \<open>An unqualified column, in \<open>generateVisualizationData\<close> and in the fallback
  extractor.\<close>

lemma run_unqualified:
  "parseSQLAndVisualize ''SELECT x FROM t'' =
     Inr \<lparr>g_nodes =
            [\<lparr>n_id = ''query_main'', n_name = ''Main Query'', n_type = Query,
               n_originalQualifiedName = None, n_isAlias = False\<rparr>,
             \<lparr>n_id = ''table_0'', n_name = ''t'', n_type = Table,
               n_originalQualifiedName = None, n_isAlias = False\<rparr>,
             \<lparr>n_id = ''col_1'', n_name = ''x'', n_type = Column,
               n_originalQualifiedName = Some ''x'', n_isAlias = False\<rparr>],
          g_edges =
            [\<lparr>e_source = ''col_1'', e_target = ''query_main'', e_type = FlowsTo,
               e_label = None\<rparr>]\<rparr>"
  by code_simp

lemma sample_unqualified:
  "createSampleDataFromSQL \<lparr>s_nodes = [], s_edges = []\<rparr> ''SELECT x FROM t'' =
     Inr \<lparr>s_nodes = [\<lparr>s_id = ''table_0'', s_name = ''t'', s_type = Table\<rparr>,
                     \<lparr>s_id = ''column_0'', s_name = ''x'', s_type = Column\<rparr>,
                     \<lparr>s_id = ''main_query'', s_name = ''Main Query'', s_type = Query\<rparr>],
          s_edges = [\<lparr>s_source = ''table_0'', s_target = ''column_0'', s_kind = Provides\<rparr>,
                     \<lparr>s_source = ''column_0'', s_target = ''main_query'', s_kind = FlowsTo\<rparr>,
                     \<lparr>s_source = ''table_0'', s_target = ''main_query'', s_kind = Sources\<rparr>]\<rparr>"
  by code_simp

lemma sample_unqualified_tables:
  "extractTableInfoWithAliases ''SELECT x FROM t'' =
     Inr [\<lparr>ti_tableName = ''t'', ti_alias = ''t'', ti_fullName = ''t''\<rparr>]"
  by code_simp

lemma sample_unqualified_select:
  "match fl_si rx_select ''SELECT x FROM t'' =
     Some \<lparr>m_index = 0, m_end = 13, m_rest = '' t'', m_text = ''SELECT x FROM'',
           m_caps = [(1, ''x'')]\<rparr>"
  by code_simp

lemma sample_unqualified_item:
  "''x'' \<in> set (splitSelectClause
      (grp_str \<lparr>m_index = 0, m_end = 13, m_rest = '' t'', m_text = ''SELECT x FROM'',
                m_caps = [(1, ''x'')]\<rparr> 1))
   \<and> test fl_none rx_ident_only (trim ''x'') \<and> \<not> isSQLKeyword (trim ''x'')"
  by code_simp

section \<open>The invariant of generateVisualizationData\<close>

lemma truthy_Some: "truthy v = Some s \<Longrightarrow> v = Some s"
  by (auto simp: truthy_def split: option.splits if_splits)

lemma wf_init: "wf init_state"
  by (simp add: wf_def ids_def init_state_def)

lemma wf_push_edge: "wf g \<Longrightarrow> s \<in> ids g \<Longrightarrow> t \<in> ids g \<Longrightarrow> wf (push_edge g s t k l)"
  by (auto simp: wf_def ids_def push_edge_def)

lemma wf_addTable: "wf g \<Longrightarrow> wf (addTable g t)"
  by (auto simp: wf_def ids_def addTable_def Let_def)

lemma wf_addQualifiedColumn: "wf g \<Longrightarrow> wf (addQualifiedColumn g q)"
  by (auto simp: wf_def ids_def addQualifiedColumn_def Let_def)

lemma wf_addSimpleColumn: "wf g \<Longrightarrow> wf (addSimpleColumn g c)"
  by (auto simp: wf_def ids_def addSimpleColumn_def Let_def)

lemma wf_fields:
  "wf g \<Longrightarrow> wf (g\<lparr>outputColumns := oc\<rparr>)"
  "wf g \<Longrightarrow> wf (g\<lparr>selectedOriginalQualifiedColumns := sc\<rparr>)"
  "wf g \<Longrightarrow> wf (g\<lparr>resolvedColumnAliases := ra\<rparr>)"
  by (auto simp: wf_def ids_def)

lemma wf_aliasedPart: "wf g \<Longrightarrow> wf (aliasedPart g e a rs)"
  by (auto simp: aliasedPart_def Let_def wf_fields wf_addSimpleColumn split: list.splits option.splits)

lemma wf_plainPart: "wf g \<Longrightarrow> wf (plainPart g p rs)"
  by (auto simp: plainPart_def Let_def wf_fields wf_addSimpleColumn split: list.splits option.splits)

lemma wf_selectPart: "wf g \<Longrightarrow> selectPart a g p = Inr g' \<Longrightarrow> wf g'"
  by (auto simp: selectPart_def wf_aliasedPart wf_plainPart split: option.splits sum.splits)

lemma wf_select_loop: "wf g \<Longrightarrow> select_loop a g ps = Inr g' \<Longrightarrow> wf g'"
  by (induction ps arbitrary: g) (auto split: sum.splits dest: wf_selectPart)

lemma wf_main: "wf g \<Longrightarrow> mainQueryNodeId \<in> ids g"
  by (simp add: wf_def)

lemma wf_col: "wf g \<Longrightarrow> truthy (columnNodeIdMap g k) = Some v \<Longrightarrow> v \<in> ids g"
  by (auto simp: wf_def dest!: truthy_Some)

lemma wf_col': "wf g \<Longrightarrow> columnNodeIdMap g k = Some v \<Longrightarrow> v \<in> ids g"
  by (auto simp: wf_def)

lemma wf_tab: "wf g \<Longrightarrow> truthy (nodeMap g k) = Some v \<Longrightarrow> v \<in> ids g"
  by (auto simp: wf_def dest!: truthy_Some)

lemma wf_ali: "wf g \<Longrightarrow> truthy (aliasNodeIdMap g k) = Some v \<Longrightarrow> v \<in> ids g"
  by (auto simp: wf_def dest!: truthy_Some)

lemma wf_outputStep: "wf g \<Longrightarrow> wf (outputStep g n)"
proof -
  assume w: "wf g"
  have new: "wf (push_edge
                    (g\<lparr>nodeIdCounter := Suc (nodeIdCounter g),
                       nodes := nodes g @ [\<lparr>n_id = i, n_name = n, n_type = Column,
                                            n_originalQualifiedName = None, n_isAlias = True\<rparr>],
                       aliasNodeIdMap := (aliasNodeIdMap g)(n \<mapsto> i)\<rparr>)
                    i mainQueryNodeId FlowsTo None)" for i
    using w by (auto simp: wf_def ids_def push_edge_def)
  show ?thesis
    unfolding outputStep_def Let_def
    using w new
    by (auto split: option.splits intro!: wf_push_edge dest: wf_col wf_col' wf_main)
qed

lemma ids_push_edge [simp]: "ids (push_edge g s t k l) = ids g"
  by (simp add: ids_def push_edge_def)

lemma foldl_wf:
  assumes "wf g" and "\<And>g x. wf g \<Longrightarrow> wf (f g x)"
  shows "wf (foldl f g xs)"
  using assms(1) by (induction xs arbitrary: g) (auto intro: assms(2))

lemma wf_providesColumn:
  "wf g \<and> t \<in> ids g \<Longrightarrow> wf (providesColumn tn t g c) \<and> t \<in> ids (providesColumn tn t g c)"
  unfolding providesColumn_def
  by (auto split: option.splits intro!: wf_push_edge dest: wf_col)

lemma wf_providesColumns:
  "wf g \<and> t \<in> ids g \<Longrightarrow> wf (foldl (providesColumn tn t) g cs)"
proof (induction cs arbitrary: g)
  case Nil
  then show ?case by simp
next
  case (Cons c cs)
  show ?case using Cons.IH[OF wf_providesColumn[OF Cons.prems]] by simp
qed

lemma wf_providesStep: "wf g \<Longrightarrow> wf (providesStep g entry)"
  unfolding providesStep_def
  by (auto split: option.splits intro!: wf_providesColumns dest: wf_tab)

lemma wf_selectedStep: "wf g \<Longrightarrow> wf (selectedStep g q)"
  unfolding selectedStep_def
  by (auto split: option.splits intro!: wf_push_edge dest: wf_col wf_ali wf_main)

lemma wf_joinStep: "wf g \<Longrightarrow> wf (joinStep g c)"
  unfolding joinStep_def
  by (auto split: option.splits intro!: wf_push_edge dest: wf_col)

lemma wf_constrainStep: "wf g \<Longrightarrow> wf (constrainStep g q)"
  unfolding constrainStep_def
  by (auto split: option.splits intro!: wf_push_edge dest: wf_col wf_main)

lemma wf_whereStep: "wf g \<Longrightarrow> whereStep s a g = Inr g' \<Longrightarrow> wf g'"
  unfolding whereStep_def
  by (auto split: option.splits sum.splits intro!: foldl_wf[where f = constrainStep] wf_constrainStep)

lemma wf_modifiesStep: "wf g \<Longrightarrow> wf (modifiesStep w r s g)"
  unfolding modifiesStep_def
  by (auto split: option.splits intro!: wf_push_edge dest: wf_tab wf_main)

lemma wf_addNodes: "wf (addNodes ts qs)"
  unfolding addNodes_def
  by (rule foldl_wf[OF foldl_wf[OF wf_init wf_addTable] wf_addQualifiedColumn])

lemma wf_generate:
  assumes "generateVisualizationData sqlQuery parserResult = Inr gr"
  shows "\<exists>g. wf g \<and> gr = graph_of g"
proof -
  from assms obtain a refs g3 jc g8 where
    sl: "select_loop a (addNodes (tables parserResult) (snd refs)) (selectClauseParts sqlQuery) = Inr g3"
    and ws: "whereStep sqlQuery a
             (foldl joinStep
                (selectedLoop (foldl providesStep (outputLoop g3) (tableColumnReferences refs)))
                jc) = Inr g8"
    and gr: "gr = graph_of (modifiesStep ''INSERT INTO'' rx_insert sqlQuery
                           (modifiesStep ''UPDATE'' rx_update sqlQuery g8))"
    by (auto simp: generateVisualizationData_def split: sum.splits)
  have "wf g3" using wf_select_loop[OF wf_addNodes sl] .
  then have "wf (outputLoop g3)" unfolding outputLoop_def by (rule foldl_wf) (rule wf_outputStep)
  then have "wf (foldl providesStep (outputLoop g3) (tableColumnReferences refs))"
    by (rule foldl_wf) (rule wf_providesStep)
  then have "wf (selectedLoop (foldl providesStep (outputLoop g3) (tableColumnReferences refs)))"
    unfolding selectedLoop_def by (rule foldl_wf) (rule wf_selectedStep)
  then have "wf (foldl joinStep
                (selectedLoop (foldl providesStep (outputLoop g3) (tableColumnReferences refs))) jc)"
    by (rule foldl_wf) (rule wf_joinStep)
  then have "wf g8" using ws by (rule wf_whereStep)
  then show ?thesis using gr by (blast intro: wf_modifiesStep)
qed

lemma no_dangling_edges:
  assumes "generateVisualizationData sqlQuery parserResult = Inr g"
  shows "(\<forall>e \<in> set (g_edges g).
            e_source e \<in> n_id ` set (g_nodes g) \<and> e_target e \<in> n_id ` set (g_nodes g))
         \<and> validEdges g = g_edges g"
proof -
  from wf_generate[OF assms] obtain st where w: "wf st" and g: "g = graph_of st" by blast
  have a: "\<forall>e \<in> set (g_edges g).
            e_source e \<in> n_id ` set (g_nodes g) \<and> e_target e \<in> n_id ` set (g_nodes g)"
    using w by (simp add: g graph_of_def wf_def ids_def)
  then have "validEdges g = g_edges g"
    unfolding validEdges_def by (auto simp: list_ex_iff filter_id_conv image_iff; metis)
  with a show ?thesis by simp
qed

section \<open>The order of the nodes\<close>

lemma grows_refl: "grows P g g"
  by (simp add: grows_def)

lemma grows_same: "nodes g' = nodes g \<Longrightarrow> grows P g g'"
  by (simp add: grows_def)

lemma grows_trans: "grows P g g' \<Longrightarrow> grows P g' g'' \<Longrightarrow> grows P g g''"
  by (auto simp: grows_def)

lemma nodes_foldl:
  assumes "\<And>g x. nodes (f g x) = nodes g"
  shows "nodes (foldl f g xs) = nodes g"
  by (induction xs arbitrary: g) (simp_all add: assms)

lemma nodes_push_edge [simp]: "nodes (push_edge g s t k l) = nodes g"
  by (simp add: push_edge_def)

lemma init_nodes: "nodes init_state = [query_node]"
  by (simp add: init_state_def query_node_def)

lemma tables_grow:
  "\<exists>T. nodes (foldl addTable g ts) = nodes g @ T \<and> map n_name T = ts \<and> list_all is_table_node T"
proof (induction ts arbitrary: g)
  case Nil
  show ?case by simp
next
  case (Cons t ts)
  from Cons.IH[of "addTable g t"] obtain T where
    T: "nodes (foldl addTable (addTable g t) ts) = nodes (addTable g t) @ T"
       "map n_name T = ts" "list_all is_table_node T" by blast
  let ?n = "\<lparr>n_id = ''table_'' @ decimal (nodeIdCounter g), n_name = t, n_type = Table,
              n_originalQualifiedName = None, n_isAlias = False\<rparr>"
  have "nodes (addTable g t) = nodes g @ [?n]" by (simp add: addTable_def Let_def)
  with T have "nodes (foldl addTable g (t # ts)) = nodes g @ (?n # T)
     \<and> map n_name (?n # T) = t # ts \<and> list_all is_table_node (?n # T)"
    by (simp add: is_table_node_def)
  then show ?case by (rule exI[of _ "?n # T"])
qed

lemma grows_fields:
  "grows P g g' \<Longrightarrow> grows P g (g'\<lparr>outputColumns := oc\<rparr>)"
  "grows P g g' \<Longrightarrow> grows P g (g'\<lparr>selectedOriginalQualifiedColumns := sc\<rparr>)"
  "grows P g g' \<Longrightarrow> grows P g (g'\<lparr>resolvedColumnAliases := ra\<rparr>)"
  by (auto simp: grows_def)

lemma nodes_providesStep: "nodes (providesStep g e) = nodes g"
  unfolding providesStep_def
  by (auto split: option.splits intro!: nodes_foldl simp: providesColumn_def)

lemma nodes_selectedStep: "nodes (selectedStep g q) = nodes g"
  unfolding selectedStep_def by (auto split: option.splits)

lemma nodes_joinStep: "nodes (joinStep g c) = nodes g"
  unfolding joinStep_def by (auto split: option.splits)

lemma nodes_constrainStep: "nodes (constrainStep g c) = nodes g"
  unfolding constrainStep_def by (auto split: option.splits)

lemma nodes_whereStep: "whereStep s a g = Inr g' \<Longrightarrow> nodes g' = nodes g"
  unfolding whereStep_def
  by (auto split: option.splits sum.splits intro!: nodes_foldl nodes_constrainStep)

lemma nodes_modifiesStep: "nodes (modifiesStep w r s g) = nodes g"
  unfolding modifiesStep_def by (auto split: option.splits)

lemma firsts_cong: "set s = set s' \<Longrightarrow> firsts key s xs = firsts key s' xs"
proof (induction xs arbitrary: s s')
  case Nil
  show ?case by simp
next
  case (Cons x xs)
  have "firsts key (key x # s) xs = firsts key (key x # s') xs"
    by (rule Cons.IH) (simp add: Cons.prems)
  with Cons.IH[OF Cons.prems] Cons.prems show ?case by simp
qed

lemma foldl_push_new_firsts: "foldl push_new acc xs = acc @ firsts (\<lambda>x. x) acc xs"
proof (induction xs arbitrary: acc)
  case Nil
  show ?case by simp
next
  case (Cons x xs)
  show ?case
  proof (cases "x \<in> set acc")
    case True
    then have "push_new acc x = acc" by (simp add: push_new_def)
    with True show ?thesis by (simp add: Cons.IH)
  next
    case False
    then have "push_new acc x = acc @ [x]" by (simp add: push_new_def)
    moreover have "firsts (\<lambda>x. x) (acc @ [x]) xs = firsts (\<lambda>x. x) (x # acc) xs"
      by (rule firsts_cong) auto
    ultimately show ?thesis using False by (simp add: Cons.IH)
  qed
qed

lemma foldl_push_new_first_seen: "foldl push_new [] xs = first_seen (\<lambda>x. x) xs"
  by (simp add: foldl_push_new_firsts first_seen_def)

lemma firsts_firsts:
  "key ` set s \<subseteq> set sk \<Longrightarrow> firsts key sk (firsts (\<lambda>x. x) s xs) = firsts key sk xs"
proof (induction xs arbitrary: s sk)
  case Nil
  show ?case by simp
next
  case (Cons x xs)
  show ?case
  proof (cases "x \<in> set s")
    case True
    with Cons.prems have "key x \<in> set sk" by auto
    with True Cons.IH[OF Cons.prems] show ?thesis by simp
  next
    case False
    show ?thesis
    proof (cases "key x \<in> set sk")
      case True
      have "key ` set (x # s) \<subseteq> set sk" using True Cons.prems by auto
      from Cons.IH[OF this] True False show ?thesis by simp
    next
      case k: False
      have "key ` set (x # s) \<subseteq> set (key x # sk)" using Cons.prems by auto
      from Cons.IH[OF this] k False show ?thesis by simp
    qed
  qed
qed

lemma first_seen_first_seen:
  "first_seen key (first_seen (\<lambda>x. x) xs) = first_seen key xs"
  by (simp add: first_seen_def firsts_firsts)

lemma foldl_push_table:
  "foldl (\<lambda>ts m. push_new ts (split_pop (grp_str m 1))) acc ms
     = foldl push_new acc (map table_of ms)"
  by (induction ms arbitrary: acc) (simp_all add: table_of_def)

lemma tables_first_seen:
  assumes "extractTablesAndColumns q = Inr ts"
  shows "\<exists>joins. exec_loop fl_i rx_join q = Inr joins
           \<and> ts = first_seen (\<lambda>t. t)
                    ((case match fl_i rx_from q of None \<Rightarrow> [] | Some m \<Rightarrow> [table_of m])
                     @ map table_of joins)"
proof -
  from assms obtain joins where
    j: "exec_loop fl_i rx_join q = Inr joins"
    by (cases "exec_loop fl_i rx_join q") (simp_all add: extractTablesAndColumns_def Let_def)
  let ?from = "case match fl_i rx_from q of None \<Rightarrow> [] | Some m \<Rightarrow> [table_of m]"
  have t0: "(case match fl_i rx_from q of
               None \<Rightarrow> []
             | Some m \<Rightarrow> push_new [] (split_pop (grp_str m 1))) = foldl push_new [] ?from"
    by (simp add: table_of_def push_new_def split: option.splits)
  have "ts = foldl push_new (foldl push_new [] ?from) (map table_of joins)"
    using assms unfolding extractTablesAndColumns_def Let_def j t0 foldl_push_table
    by simp
  then have "ts = foldl push_new [] (?from @ map table_of joins)"
    by simp
  then have "ts = first_seen (\<lambda>t. t) (?from @ map table_of joins)"
    by (simp only: foldl_push_new_first_seen)
  with j show ?thesis by blast
qed

lemma ref_loop_names:
  "ref_loop a ms tcm acc = Inr res \<Longrightarrow> snd res = foldl push_new acc (map (reference a) ms)"
proof (induction ms arbitrary: tcm acc)
  case Nil
  then show ?case by auto
next
  case (Cons m ms)
  then show ?case by (auto simp: Let_def reference_def split: sum.splits)
qed

lemma ref_loop_None:
  "ref_loop a ms None acc = Inr (None, foldl push_new acc (map (reference a) ms))"
  by (induction ms arbitrary: acc) (simp_all add: Let_def reference_def)

lemma refs_first_seen:
  assumes "extractTableColumnReferences s a tcm [] = Inr res"
  shows "\<exists>ms. exec_loop fl_none rx_table_column s = Inr ms
           \<and> snd res = first_seen (\<lambda>x. x) (map (reference a) ms)"
  using assms
  by (auto simp: extractTableColumnReferences_def foldl_push_new_first_seen
           split: sum.splits dest: ref_loop_names)

lemma refs_None: "extractTableColumnReferences e a None [] = Inr res \<Longrightarrow> fst res = None"
  by (auto simp: extractTableColumnReferences_def ref_loop_None split: sum.splits)

lemma columnNodeIdMap_addTable: "columnNodeIdMap (foldl addTable g ts) = columnNodeIdMap g"
  by (induction ts arbitrary: g) (simp_all add: addTable_def Let_def)

lemma resolved_addTable: "resolvedColumnAliases (foldl addTable g ts) = resolvedColumnAliases g"
  by (induction ts arbitrary: g) (simp_all add: addTable_def Let_def)

lemma resolved_addQualified:
  "resolvedColumnAliases (foldl addQualifiedColumn g qs) = resolvedColumnAliases g"
  by (induction qs arbitrary: g) (simp_all add: addQualifiedColumn_def Let_def)

lemma resolved_addNodes: "resolvedColumnAliases (addNodes ts qs) = []"
  by (simp add: addNodes_def resolved_addQualified resolved_addTable init_state_def)

lemma qualified_exact:
  assumes "dom (columnNodeIdMap g) = set seen"
  shows "\<exists>Q. nodes (foldl addQualifiedColumn g qs) = nodes g @ Q
           \<and> map n_originalQualifiedName Q = map Some (firsts toLowerCase seen qs)
           \<and> list_all is_qualified_column_node Q"
  using assms
proof (induction qs arbitrary: g seen)
  case Nil
  show ?case by simp
next
  case (Cons q qs)
  show ?case
  proof (cases "columnNodeIdMap g (toLowerCase q) = None")
    case True
    then have "toLowerCase q \<notin> dom (columnNodeIdMap g)" by (simp add: domIff)
    with Cons.prems have notin: "toLowerCase q \<notin> set seen" by simp
    let ?n = "\<lparr>n_id = ''col_'' @ decimal (nodeIdCounter g),
                n_name = part_str (split (CHR ''.'') q) 0 @ '' > '' @ part_str (split (CHR ''.'') q) 1,
                n_type = Column, n_originalQualifiedName = Some q, n_isAlias = False\<rparr>"
    have n: "nodes (addQualifiedColumn g q) = nodes g @ [?n]"
      using True by (simp add: addQualifiedColumn_def Let_def)
    have d: "dom (columnNodeIdMap (addQualifiedColumn g q)) = set (toLowerCase q # seen)"
      using True Cons.prems by (simp add: addQualifiedColumn_def Let_def)
    from Cons.IH[OF d] obtain Q where
      Q: "nodes (foldl addQualifiedColumn (addQualifiedColumn g q) qs)
            = nodes (addQualifiedColumn g q) @ Q"
         "map n_originalQualifiedName Q = map Some (firsts toLowerCase (toLowerCase q # seen) qs)"
         "list_all is_qualified_column_node Q" by blast
    have "is_qualified_column_node ?n"
      unfolding is_qualified_column_node_def
      by (simp, intro exI[of _ "part_str (split (CHR ''.'') q) 0"]
                       exI[of _ "part_str (split (CHR ''.'') q) 1"], simp)
    with Q n notin have "nodes (foldl addQualifiedColumn g (q # qs)) = nodes g @ (?n # Q)
       \<and> map n_originalQualifiedName (?n # Q) = map Some (firsts toLowerCase seen (q # qs))
       \<and> list_all is_qualified_column_node (?n # Q)"
      by simp
    then show ?thesis by (rule exI[of _ "?n # Q"])
  next
    case False
    then have "toLowerCase q \<in> dom (columnNodeIdMap g)" by (simp add: domIff)
    with Cons.prems have isin: "toLowerCase q \<in> set seen" by simp
    have same: "addQualifiedColumn g q = g" by (simp add: addQualifiedColumn_def False)
    from Cons.IH[OF Cons.prems] obtain Q where
      "nodes (foldl addQualifiedColumn g qs) = nodes g @ Q"
      "map n_originalQualifiedName Q = map Some (firsts toLowerCase seen qs)"
      "list_all is_qualified_column_node Q" by blast
    with isin same have "nodes (foldl addQualifiedColumn g (q # qs)) = nodes g @ Q
       \<and> map n_originalQualifiedName Q = map Some (firsts toLowerCase seen (q # qs))
       \<and> list_all is_qualified_column_node Q"
      by simp
    then show ?thesis by (rule exI[of _ Q])
  qed
qed

lemma update_values:
  "(k', v') \<in> set (AList.update k v al) \<Longrightarrow> v' = v \<or> v' \<in> snd ` set al"
  by (induction al) (force split: if_splits)+

lemma resolved_addSimple:
  "resolvedColumnAliases (addSimpleColumn g c) = resolvedColumnAliases g"
  by (simp add: addSimpleColumn_def Let_def)

lemma simple_grow_select:
  assumes "select_column q a c"
  shows "grows (is_select_column_node q a) g (addSimpleColumn g c)"
  using assms unfolding grows_def addSimpleColumn_def Let_def is_select_column_node_def
  by auto

lemma aliasedPart_select:
  assumes part: "part \<in> set (selectClauseParts q)"
    and m: "match fl_i rx_as (trim part) = Some asMatch"
    and res: "extractTableColumnReferences (trim (grp_str asMatch 1)) a None [] = Inr res"
    and inv: "\<forall>v \<in> snd ` set (resolvedColumnAliases g). select_alias q a v"
  shows "grows (is_select_column_node q a) g
           (aliasedPart g (trim (grp_str asMatch 1)) (toLowerCase (trim (grp_str asMatch 2)))
              (snd res))
       \<and> (\<forall>v \<in> snd ` set (resolvedColumnAliases
              (aliasedPart g (trim (grp_str asMatch 1)) (toLowerCase (trim (grp_str asMatch 2)))
                 (snd res))). select_alias q a v)"
proof -
  have e: "selectExpression part = trim (grp_str asMatch 1)"
    and al: "selectAlias part = Some (toLowerCase (trim (grp_str asMatch 2)))"
    using m by (simp_all add: selectExpression_def selectAlias_def)
  from refs_None[OF res] have r: "res = (None, snd res)" by (cases res) simp
  show ?thesis
  proof (cases "snd res")
    case Nil
    with r res e have ref: "extractTableColumnReferences (selectExpression part) a None [] = Inr (None, [])"
      by simp
    show ?thesis
    proof (cases "truthy (extractOriginalColumnFromExpression (trim (grp_str asMatch 1)))")
      case None
      with Nil inv show ?thesis by (simp add: aliasedPart_def grows_refl grows_fields)
    next
      case (Some c)
      with part ref e have "select_column q a c" unfolding select_column_def by auto
      from simple_grow_select[OF this, of g] Some Nil inv show ?thesis
        by (simp add: aliasedPart_def Let_def grows_fields resolved_addSimple)
    qed
  next
    case (Cons r' rs)
    with r res e have "extractTableColumnReferences (selectExpression part) a None [] = Inr (None, r' # rs)"
      by simp
    with part al have sa: "select_alias q a (toLowerCase (trim (grp_str asMatch 2)))"
      unfolding select_alias_def by blast
    have g: "aliasedPart g (trim (grp_str asMatch 1)) (toLowerCase (trim (grp_str asMatch 2))) (snd res)
          = g\<lparr>resolvedColumnAliases :=
                  AList.update (toLowerCase r') (toLowerCase (trim (grp_str asMatch 2)))
                    (resolvedColumnAliases g),
               selectedOriginalQualifiedColumns :=
                  push_new (selectedOriginalQualifiedColumns g) (toLowerCase r'),
               outputColumns := push_new (outputColumns g) (toLowerCase (trim (grp_str asMatch 2)))\<rparr>"
      by (simp add: aliasedPart_def Cons)
    show ?thesis unfolding g using sa inv
      by (auto simp: grows_def dest!: update_values)
  qed
qed

lemma plainPart_select:
  assumes part: "part \<in> set (selectClauseParts q)"
    and m: "match fl_i rx_as (trim part) = None"
    and res: "extractTableColumnReferences (trim part) a None [] = Inr res"
  shows "grows (is_select_column_node q a) g (plainPart g (trim part) (snd res))
       \<and> resolvedColumnAliases (plainPart g (trim part) (snd res)) = resolvedColumnAliases g"
proof -
  have e: "selectExpression part = trim part"
    using m by (simp add: selectExpression_def)
  from refs_None[OF res] have r: "res = (None, snd res)" by (cases res) simp
  show ?thesis
  proof (cases "snd res")
    case Nil
    with r res e have ref: "extractTableColumnReferences (selectExpression part) a None [] = Inr (None, [])"
      by simp
    show ?thesis
    proof (cases "truthy (extractOriginalColumnFromExpression (trim part))")
      case None
      show ?thesis
      proof (cases "trim part = ''*''")
        case True
        with part ref have "select_column q a ''*''" unfolding select_column_def by auto
        from simple_grow_select[OF this, of "g\<lparr>outputColumns := push_new (outputColumns g) ''*''\<rparr>"]
        have "grows (is_select_column_node q a) g
                (addSimpleColumn (g\<lparr>outputColumns := push_new (outputColumns g) ''*''\<rparr>) ''*'')"
          by (simp add: grows_def)
        with None Nil True show ?thesis
          by (simp add: plainPart_def resolved_addSimple)
      next
        case False
        with None Nil show ?thesis by (simp add: plainPart_def grows_refl)
      qed
    next
      case (Some c)
      with part ref e have "select_column q a c" unfolding select_column_def by auto
      from simple_grow_select[OF this, of g] Some Nil show ?thesis
        by (simp add: plainPart_def Let_def grows_fields resolved_addSimple)
    qed
  next
    case (Cons r' rs)
    then show ?thesis by (simp add: plainPart_def grows_def)
  qed
qed

lemma selectPart_select:
  assumes "selectPart a g part = Inr g'" and "part \<in> set (selectClauseParts q)"
    and "\<forall>v \<in> snd ` set (resolvedColumnAliases g). select_alias q a v"
  shows "grows (is_select_column_node q a) g g'
       \<and> (\<forall>v \<in> snd ` set (resolvedColumnAliases g'). select_alias q a v)"
proof (cases "match fl_i rx_as (trim part)")
  case None
  with assms(1) obtain res where
    res: "extractTableColumnReferences (trim part) a None [] = Inr res"
    and g': "g' = plainPart g (trim part) (snd res)"
    by (auto simp: selectPart_def split: sum.splits)
  from plainPart_select[OF assms(2) None res, of g] assms(3) show ?thesis by (simp add: g')
next
  case (Some asMatch)
  with assms(1) obtain res where
    res: "extractTableColumnReferences (trim (grp_str asMatch 1)) a None [] = Inr res"
    and g': "g' = aliasedPart g (trim (grp_str asMatch 1)) (toLowerCase (trim (grp_str asMatch 2)))
                    (snd res)"
    by (auto simp: selectPart_def split: sum.splits)
  from aliasedPart_select[OF assms(2) Some res assms(3)] show ?thesis by (simp add: g')
qed

lemma select_loop_select:
  assumes "select_loop a g ps = Inr g'" and "set ps \<subseteq> set (selectClauseParts q)"
    and "\<forall>v \<in> snd ` set (resolvedColumnAliases g). select_alias q a v"
  shows "grows (is_select_column_node q a) g g'
       \<and> (\<forall>v \<in> snd ` set (resolvedColumnAliases g'). select_alias q a v)"
  using assms
proof (induction ps arbitrary: g)
  case Nil
  then show ?case by (simp add: grows_refl)
next
  case (Cons p ps)
  from Cons.prems(1) obtain g1 where
    g1: "selectPart a g p = Inr g1" and rest: "select_loop a g1 ps = Inr g'"
    by (auto split: sum.splits)
  from Cons.prems(2) have p: "p \<in> set (selectClauseParts q)"
    and ps: "set ps \<subseteq> set (selectClauseParts q)" by auto
  from selectPart_select[OF g1 p Cons.prems(3)] have
    s1: "grows (is_select_column_node q a) g g1"
    and i1: "\<forall>v \<in> snd ` set (resolvedColumnAliases g1). select_alias q a v" by auto
  from Cons.IH[OF rest ps i1] s1 show ?case by (blast intro: grows_trans)
qed

lemma outputStep_select:
  assumes "\<forall>v \<in> snd ` set (resolvedColumnAliases g). select_alias q a v"
  shows "grows (is_select_alias_node q a) g (outputStep g n)
       \<and> resolvedColumnAliases (outputStep g n) = resolvedColumnAliases g"
  using assms unfolding outputStep_def Let_def grows_def is_select_alias_node_def push_edge_def
  by (auto split: option.splits)

lemma outputSteps_select:
  assumes "\<forall>v \<in> snd ` set (resolvedColumnAliases g). select_alias q a v"
  shows "grows (is_select_alias_node q a) g (foldl outputStep g ns)"
  using assms
proof (induction ns arbitrary: g)
  case Nil
  show ?case by (simp add: grows_refl)
next
  case (Cons n ns)
  from outputStep_select[OF Cons.prems, of n] have
    s: "grows (is_select_alias_node q a) g (outputStep g n)"
    and r: "resolvedColumnAliases (outputStep g n) = resolvedColumnAliases g" by auto
  from Cons.prems r have "\<forall>v \<in> snd ` set (resolvedColumnAliases (outputStep g n)). select_alias q a v"
    by simp
  from Cons.IH[OF this] s show ?case by (auto intro: grows_trans)
qed

lemma nodes_order:
  assumes "generateVisualizationData sqlQuery parserResult = Inr gr"
  shows "\<exists>a ms T Q S A.
           extractTableAliases sqlQuery = Inr a
         \<and> exec_loop fl_none rx_table_column sqlQuery = Inr ms
         \<and> g_nodes gr = query_node # T @ Q @ S @ A
         \<and> list_all is_table_node T
         \<and> map n_name T = tables parserResult
         \<and> list_all is_qualified_column_node Q
         \<and> map n_originalQualifiedName Q
             = map Some (first_seen toLowerCase (map (reference a) ms))
         \<and> list_all (is_select_column_node sqlQuery a) S
         \<and> list_all (is_select_alias_node sqlQuery a) A"
proof -
  from assms obtain a refs g3 jc g8 where
    al: "extractTableAliases sqlQuery = Inr a"
    and rf: "extractTableColumnReferences sqlQuery a (Some []) [] = Inr refs"
    and sl: "select_loop a (addNodes (tables parserResult) (snd refs)) (selectClauseParts sqlQuery) = Inr g3"
    and ws: "whereStep sqlQuery a
             (foldl joinStep
                (selectedLoop (foldl providesStep (outputLoop g3) (tableColumnReferences refs)))
                jc) = Inr g8"
    and gr: "gr = graph_of (modifiesStep ''INSERT INTO'' rx_insert sqlQuery
                           (modifiesStep ''UPDATE'' rx_update sqlQuery g8))"
    by (auto simp: generateVisualizationData_def split: sum.splits)
  from refs_first_seen[OF rf] obtain ms where
    ms: "exec_loop fl_none rx_table_column sqlQuery = Inr ms"
    and refs: "snd refs = first_seen (\<lambda>x. x) (map (reference a) ms)" by blast
  from tables_grow[of init_state "tables parserResult"] obtain T where
    T: "nodes (foldl addTable init_state (tables parserResult)) = [query_node] @ T"
       "map n_name T = tables parserResult" "list_all is_table_node T"
    by (auto simp: init_nodes)
  have "dom (columnNodeIdMap (foldl addTable init_state (tables parserResult))) = set []"
    by (simp add: columnNodeIdMap_addTable init_state_def)
  from qualified_exact[OF this, of "snd refs"] obtain Q where
    Q: "nodes (addNodes (tables parserResult) (snd refs)) = ([query_node] @ T) @ Q"
       "map n_originalQualifiedName Q = map Some (firsts toLowerCase [] (snd refs))"
       "list_all is_qualified_column_node Q"
    unfolding addNodes_def T(1) by blast
  from Q(2) have Q2: "map n_originalQualifiedName Q
      = map Some (first_seen toLowerCase (map (reference a) ms))"
    by (simp add: refs first_seen_first_seen first_seen_def[symmetric])
  have inv0: "\<forall>v \<in> snd ` set (resolvedColumnAliases (addNodes (tables parserResult) (snd refs))).
                select_alias sqlQuery a v"
    by (simp add: resolved_addNodes)
  from select_loop_select[OF sl subset_refl inv0] have
    sg: "grows (is_select_column_node sqlQuery a) (addNodes (tables parserResult) (snd refs)) g3"
    and inv3: "\<forall>v \<in> snd ` set (resolvedColumnAliases g3). select_alias sqlQuery a v" by auto
  from sg obtain S where
    S: "nodes g3 = (([query_node] @ T) @ Q) @ S" "list_all (is_select_column_node sqlQuery a) S"
    unfolding grows_def Q(1) by blast
  from outputSteps_select[OF inv3, of "outputColumns g3"] obtain A where
    A: "nodes (outputLoop g3) = ((([query_node] @ T) @ Q) @ S) @ A"
       "list_all (is_select_alias_node sqlQuery a) A"
    unfolding grows_def S(1) outputLoop_def by blast
  have "nodes g8 = nodes (outputLoop g3)"
    using nodes_whereStep[OF ws]
    by (simp add: nodes_foldl nodes_joinStep nodes_selectedStep nodes_providesStep selectedLoop_def)
  then have "g_nodes gr = query_node # T @ Q @ S @ A"
    by (simp add: gr graph_of_def nodes_modifiesStep A(1))
  with al ms T Q2 Q(3) S(2) A(2) show ?thesis by blast
qed

section \<open>Reserved words among the node names\<close>

lemma toUpperCase_append: "toUpperCase (a @ b) = toUpperCase a @ toUpperCase b"
  by (simp add: toUpperCase_def)

lemma keyword_chars: "k \<in> set sql_keywords \<Longrightarrow> CHR '' '' \<notin> set k \<and> CHR ''*'' \<notin> set k"
  by (auto simp: sql_keywords_def)

lemma upper_space: "toUpperCase '' > '' = '' > ''"
  by code_simp

lemma not_keyword_qualified: "\<not> isSQLKeyword (t @ '' > '' @ c)"
proof
  assume "isSQLKeyword (t @ '' > '' @ c)"
  then have "toUpperCase t @ '' > '' @ toUpperCase c \<in> set sql_keywords"
    by (simp add: isSQLKeyword_def toUpperCase_append upper_space del: append.simps)
  from keyword_chars[OF this] show False by simp
qed

lemma not_keyword_query: "\<not> isSQLKeyword ''Main Query''"
  by code_simp

lemma not_keyword_star: "\<not> isSQLKeyword ''*''"
  by code_simp

lemma inferred_keyword:
  assumes "truthy (extractOriginalColumnFromExpression expr) = Some n" and "isSQLKeyword n"
  shows "extractOriginalColumnFromExpression expr = Some n \<and> CHR ''.'' \<in> set (cleanExpr expr)"
  using assms
  by (auto simp: extractOriginalColumnFromExpression_def isValidColumnName_def
           dest!: truthy_Some split: if_splits)

lemma keyword_names_select:
  assumes "generateVisualizationData sqlQuery parserResult = Inr g"
    and "n \<in> set (g_nodes g)" and "isSQLKeyword (n_name n)"
  shows "\<exists>a. extractTableAliases sqlQuery = Inr a
           \<and> (is_table_node n \<and> n_name n \<in> set (tables parserResult)
              \<or> is_select_alias_node sqlQuery a n
              \<or> n_type n = Column \<and> \<not> n_isAlias n
                  \<and> n_originalQualifiedName n = Some (n_name n)
                  \<and> (\<exists>part. part \<in> set (selectClauseParts sqlQuery)
                        \<and> extractTableColumnReferences (selectExpression part) a None []
                            = Inr (None, [])
                        \<and> CHR ''.'' \<in> set (cleanExpr (selectExpression part))
                        \<and> n_name n = trim (split_pop (cleanExpr (selectExpression part)))))"
proof -
  from nodes_order[OF assms(1)] obtain a T Q S A where
    a: "extractTableAliases sqlQuery = Inr a"
    and g: "g_nodes g = query_node # T @ Q @ S @ A"
    and T: "list_all is_table_node T" "map n_name T = tables parserResult"
    and Q: "list_all is_qualified_column_node Q"
    and S: "list_all (is_select_column_node sqlQuery a) S"
    and A: "list_all (is_select_alias_node sqlQuery a) A"
    by blast
  from assms(2) g consider "n = query_node" | "n \<in> set T" | "n \<in> set Q" | "n \<in> set S" | "n \<in> set A"
    by auto
  then have "is_table_node n \<and> n_name n \<in> set (tables parserResult)
              \<or> is_select_alias_node sqlQuery a n
              \<or> n_type n = Column \<and> \<not> n_isAlias n
                  \<and> n_originalQualifiedName n = Some (n_name n)
                  \<and> (\<exists>part. part \<in> set (selectClauseParts sqlQuery)
                        \<and> extractTableColumnReferences (selectExpression part) a None []
                            = Inr (None, [])
                        \<and> CHR ''.'' \<in> set (cleanExpr (selectExpression part))
                        \<and> n_name n = trim (split_pop (cleanExpr (selectExpression part))))"
  proof cases
    case 1
    with assms(3) show ?thesis by (simp add: query_node_def not_keyword_query)
  next
    case 2
    with T(1) have "is_table_node n" by (simp add: list_all_iff)
    moreover from 2 have "n_name n \<in> set (map n_name T)" by simp
    ultimately show ?thesis by (simp add: T(2))
  next
    case 3
    with Q have "is_qualified_column_node n" by (simp add: list_all_iff)
    then obtain t c where "n_name n = t @ '' > '' @ c"
      unfolding is_qualified_column_node_def by blast
    with assms(3) not_keyword_qualified[of t c] show ?thesis by simp
  next
    case 4
    with S have s: "is_select_column_node sqlQuery a n" by (simp add: list_all_iff)
    then obtain part where
      part: "part \<in> set (selectClauseParts sqlQuery)"
      and ref: "extractTableColumnReferences (selectExpression part) a None [] = Inr (None, [])"
      and c: "truthy (extractOriginalColumnFromExpression (selectExpression part)) = Some (n_name n)
              \<or> trim part = ''*'' \<and> n_name n = ''*''"
      unfolding is_select_column_node_def select_column_def by blast
    from c assms(3) not_keyword_star
    have t: "truthy (extractOriginalColumnFromExpression (selectExpression part)) = Some (n_name n)"
      by auto
    from inferred_keyword[OF t assms(3)] have
      e: "extractOriginalColumnFromExpression (selectExpression part) = Some (n_name n)"
      and d: "CHR ''.'' \<in> set (cleanExpr (selectExpression part))" by auto
    from e d have "n_name n = trim (split_pop (cleanExpr (selectExpression part)))"
      by (simp add: extractOriginalColumnFromExpression_def)
    with s part ref d show ?thesis unfolding is_select_column_node_def by blast
  next
    case 5
    with A show ?thesis by (simp add: list_all_iff)
  qed
  with a show ?thesis by blast
qed

lemma single_query_node:
  assumes "generateVisualizationData sqlQuery parserResult = Inr g"
  shows "filter (\<lambda>n. n_type n = Query) (g_nodes g) = [query_node]"
proof -
  from nodes_order[OF assms] obtain a T Q S A where
    g: "g_nodes g = query_node # T @ Q @ S @ A"
    and T: "list_all is_table_node T" and Q: "list_all is_qualified_column_node Q"
    and S: "list_all (is_select_column_node sqlQuery a) S"
    and A: "list_all (is_select_alias_node sqlQuery a) A"
    by blast
  have "filter (\<lambda>n. n_type n = Query) T = []" "filter (\<lambda>n. n_type n = Query) Q = []"
       "filter (\<lambda>n. n_type n = Query) S = []" "filter (\<lambda>n. n_type n = Query) A = []"
    using T Q S A
    by (auto simp: list_all_iff filter_empty_conv is_table_node_def is_qualified_column_node_def
                   is_select_column_node_def is_select_alias_node_def)
  then show ?thesis by (simp add: g query_node_def)
qed

lemma generate_of_run:
  assumes "parseSQLAndVisualize input = Inr g"
  shows "\<exists>r. parseSQL (trim input) = Inr r \<and> generateVisualizationData (trim input) r = Inr g"
  using assms by (auto simp: parseSQLAndVisualize_def Let_def split: if_splits sum.splits)

lemma run_nodes_order:
  assumes "parseSQLAndVisualize input = Inr g"
  shows "\<exists>joins a ms T Q S A.
           exec_loop fl_i rx_join (cleanQuery (trim input)) = Inr joins
         \<and> extractTableAliases (trim input) = Inr a
         \<and> exec_loop fl_none rx_table_column (trim input) = Inr ms
         \<and> g_nodes g = query_node # T @ Q @ S @ A
         \<and> list_all is_table_node T
         \<and> map n_name T
             = first_seen (\<lambda>t. t)
                 ((case match fl_i rx_from (cleanQuery (trim input)) of
                     None \<Rightarrow> []
                   | Some m \<Rightarrow> [table_of m])
                  @ map table_of joins)
         \<and> list_all is_qualified_column_node Q
         \<and> map n_originalQualifiedName Q
             = map Some (first_seen toLowerCase (map (reference a) ms))
         \<and> list_all (is_select_column_node (trim input) a) S
         \<and> list_all (is_select_alias_node (trim input) a) A"
proof -
  from generate_of_run [OF assms] obtain r where
    r: "parseSQL (trim input) = Inr r" "generateVisualizationData (trim input) r = Inr g"
    by blast
  from r(1) have "extractTablesAndColumns (cleanQuery (trim input)) = Inr (tables r)"
    by (auto simp: parseSQL_def split: sum.splits)
  from tables_first_seen[OF this] obtain joins where
    j: "exec_loop fl_i rx_join (cleanQuery (trim input)) = Inr joins"
    and t: "tables r = first_seen (\<lambda>t. t)
                 ((case match fl_i rx_from (cleanQuery (trim input)) of
                     None \<Rightarrow> []
                   | Some m \<Rightarrow> [table_of m])
                  @ map table_of joins)" by blast
  from nodes_order [OF r(2)] j show ?thesis unfolding t by blast
qed

section \<open>The normalisation of parseSQL\<close>

lemma star_cls_unfold:
  "rmatch fl (Star (Cls k)) (p, w, c) =
     (case w of
        [] \<Rightarrow> [(p, w, c)]
      | x # w' \<Rightarrow>
          if in_cls k x then rmatch fl (Star (Cls k)) (Suc p, w', c) @ [(p, w, c)]
          else [(p, w, c)])"
  by (subst rmatch.simps) (simp add: rmatch.simps(2) progress_def split: list.splits)

lemma star_space_head:
  "\<exists>rest. rmatch fl (Star (Cls Space)) (p, w, c) =
     (p + length (takeWhile is_space w), dropWhile is_space w, c) # rest"
proof (induction w arbitrary: p)
  case Nil
  show ?case by (subst star_cls_unfold) simp
next
  case (Cons x w)
  show ?case
  proof (cases "is_space x")
    case True
    from Cons.IH[of "Suc p"] obtain rest where
      "rmatch fl (Star (Cls Space)) (Suc p, w, c) =
         (Suc p + length (takeWhile is_space w), dropWhile is_space w, c) # rest" ..
    with True show ?thesis by (subst star_cls_unfold) simp
  next
    case False
    then show ?thesis by (subst star_cls_unfold) simp
  qed
qed

lemma plus_space:
  "rmatch fl (Plus (Cls Space)) (p, w, c) =
     (case w of [] \<Rightarrow> [] | x # w' \<Rightarrow>
        if is_space x then rmatch fl (Star (Cls Space)) (Suc p, w', c) else [])"
  by (subst rmatch.simps) (simp add: rmatch.simps(2) split: list.splits)

lemma search_ws_none:
  "\<forall>x \<in> set w. \<not> is_space x \<Longrightarrow> search fl (Plus (Cls Space)) p w = None"
proof (induction w arbitrary: p)
  case Nil
  show ?case by (subst search.simps) (simp add: plus_space)
next
  case (Cons x w)
  then show ?case by (subst search.simps) (simp add: plus_space)
qed

lemma search_ws_some:
  "\<exists>x \<in> set w. is_space x \<Longrightarrow>
   \<exists>m. search fl (Plus (Cls Space)) p w = Some m
     \<and> m_index m = p + length (takeWhile (\<lambda>x. \<not> is_space x) w)
     \<and> m_rest m = dropWhile is_space (dropWhile (\<lambda>x. \<not> is_space x) w)
     \<and> m_text m \<noteq> []"
proof (induction w arbitrary: p)
  case Nil
  then show ?case by simp
next
  case (Cons x w)
  show ?case
  proof (cases "is_space x")
    case True
    from star_space_head[of fl "Suc p" w "[]"] obtain rest where
      "rmatch fl (Star (Cls Space)) (Suc p, w, []) =
         (Suc p + length (takeWhile is_space w), dropWhile is_space w, []) # rest" ..
    with True show ?thesis
      by (subst search.simps) (simp add: plus_space)
  next
    case False
    with Cons.prems have "\<exists>x \<in> set w. is_space x" by auto
    from Cons.IH[OF this, of "Suc p"] False show ?thesis
      by (subst search.simps) (simp add: plus_space)
  qed
qed

lemma collapse_no_space:
  "\<forall>x \<in> set w. \<not> is_space x \<Longrightarrow> collapse_whitespace w = w"
  by (induction w) auto

lemma collapse_split:
  "collapse_whitespace w =
     takeWhile (\<lambda>x. \<not> is_space x) w @ collapse_whitespace (dropWhile (\<lambda>x. \<not> is_space x) w)"
  by (induction w) auto

lemma at_space:
  assumes "\<exists>x \<in> set w. is_space x"
  shows "\<exists>x t. dropWhile (\<lambda>x. \<not> is_space x) w = x # t \<and> is_space x"
  using assms by (induction w) auto

lemma replace_ws_collapse:
  "replace_all fl rx_ws '' '' p w = collapse_whitespace w"
proof (induction "length w" arbitrary: p w rule: less_induct)
  case less
  show ?case
  proof (cases "\<exists>x \<in> set w. is_space x")
    case False
    then have "\<forall>x \<in> set w. \<not> is_space x" by simp
    then show ?thesis
      by (subst replace_all.simps) (simp add: rx_ws_def ws1_def search_ws_none collapse_no_space)
  next
    case True
    from search_ws_some[OF True, of fl p] obtain m where
      m: "search fl (Plus (Cls Space)) p w = Some m"
         "m_index m = p + length (takeWhile (\<lambda>x. \<not> is_space x) w)"
         "m_rest m = dropWhile is_space (dropWhile (\<lambda>x. \<not> is_space x) w)"
         "m_text m \<noteq> []" by blast
    from at_space[OF True] obtain x t where
      xt: "dropWhile (\<lambda>x. \<not> is_space x) w = x # t" "is_space x" by blast
    have "length (dropWhile is_space t) \<le> length t" by (rule length_dropWhile_le)
    moreover have "length (x # t) \<le> length w"
      unfolding xt(1)[symmetric] by (rule length_dropWhile_le)
    ultimately have lt: "length (m_rest m) < length w"
      using m(3) xt by simp
    have lt': "length (dropWhile is_space (dropWhile (\<lambda>x. \<not> is_space x) w)) < length w"
      using lt m(3) by simp
    have "replace_all fl rx_ws '' '' p w =
            takeWhile (\<lambda>x. \<not> is_space x) w @ '' '' @ replace_all fl rx_ws '' '' (m_end m) (m_rest m)"
      by (subst replace_all.simps) (simp add: rx_ws_def ws1_def m lt' takeWhile_eq_take[symmetric])
    also have "replace_all fl rx_ws '' '' (m_end m) (m_rest m) = collapse_whitespace (m_rest m)"
      using less[OF lt] .
    finally show ?thesis
      using collapse_split[of w] m(3) xt by simp
  qed
qed

lemma cleanQuery_collapse: "cleanQuery s = collapse_whitespace (trim s)"
  by (simp add: cleanQuery_def replace_ws_collapse)

lemma dropWhile_self: "xs = [] \<or> \<not> P (hd xs) \<Longrightarrow> dropWhile P xs = xs"
  by (cases xs) auto

lemma dropWhile_head: "dropWhile P xs = [] \<or> \<not> P (hd (dropWhile P xs))"
  by (induction xs) auto

lemma last_dropWhile_rev: "xs \<noteq> [] \<Longrightarrow> \<not> P (hd xs) \<Longrightarrow>
  rev (dropWhile P (rev xs)) \<noteq> [] \<and> hd (rev (dropWhile P (rev xs))) = hd xs"
proof (induction xs rule: rev_induct)
  case Nil
  then show ?case by simp
next
  case (snoc x xs)
  show ?case
  proof (cases xs)
    case Nil
    with snoc.prems show ?thesis by simp
  next
    case (Cons y ys)
    with snoc show ?thesis by (cases "P x") auto
  qed
qed

lemma trim_idem: "trim (trim s) = trim s"
proof -
  let ?t = "dropWhile is_space s"
  let ?u = "rev (dropWhile is_space (rev ?t))"
  have u: "?u = [] \<or> \<not> is_space (hd ?u)"
  proof (cases "?t = []")
    case True
    show ?thesis unfolding True by simp
  next
    case False
    with dropWhile_head[of is_space s] have "\<not> is_space (hd ?t)" by blast
    from last_dropWhile_rev[of "dropWhile is_space s" is_space, OF False this] this
    show ?thesis by metis
  qed
  have "dropWhile is_space ?u = ?u" by (rule dropWhile_self) (rule u)
  moreover have "dropWhile is_space (rev ?u) = rev ?u"
    by (simp add: dropWhile_idem)
  ultimately show ?thesis by (simp add: trim_def)
qed

lemma parse_normalised:
  "parseSQL sqlQuery =
     (case extractTablesAndColumns (collapse_whitespace (trim sqlQuery)) of
        Inl e \<Rightarrow> Inl e
      | Inr ts \<Rightarrow> Inr \<lparr>query = collapse_whitespace (trim sqlQuery), tables = ts\<rparr>)"
  by (simp add: parseSQL_def cleanQuery_collapse split: sum.splits)

lemma run_normalised:
  "parseSQLAndVisualize input =
     (if trim input = [] then Inl EmptyInput
      else case extractTablesAndColumns (collapse_whitespace (trim input)) of
             Inl e \<Rightarrow> Inl e
           | Inr ts \<Rightarrow>
               generateVisualizationData (trim input)
                 \<lparr>query = collapse_whitespace (trim input), tables = ts\<rparr>)"
  by (simp add: parseSQLAndVisualize_def Let_def parse_normalised trim_idem split: sum.splits)

section \<open>The matcher on identifiers\<close>

text \<open>What the matcher does on the patterns built from the identifier classes: the
  pattern \<open>^[a-zA-Z_][a-zA-Z0-9_]*$\<close> accepts the identifiers, and a match never gives
  back input that it has consumed.\<close>

lemma star_cls_head:
  "\<exists>rest. rmatch fl (Star (Cls k)) (p, w, c) =
     (p + length (takeWhile (in_cls k) w), dropWhile (in_cls k) w, c) # rest"
proof (induction w arbitrary: p)
  case Nil
  show ?case by (subst star_cls_unfold) simp
next
  case (Cons x w)
  show ?case
  proof (cases "in_cls k x")
    case True
    from Cons.IH[of "Suc p"] obtain rest where
      "rmatch fl (Star (Cls k)) (Suc p, w, c) =
         (Suc p + length (takeWhile (in_cls k) w), dropWhile (in_cls k) w, c) # rest" ..
    with True show ?thesis by (subst star_cls_unfold) simp
  next
    case False
    then show ?thesis by (subst star_cls_unfold) simp
  qed
qed

lemma star_cls_states:
  "st \<in> set (rmatch fl (Star (Cls k)) (p, w, c)) \<Longrightarrow>
   \<exists>i \<le> length (takeWhile (in_cls k) w). st = (p + i, drop i w, c)"
proof (induction w arbitrary: p)
  case Nil
  then show ?case by (subst (asm) star_cls_unfold) simp
next
  case (Cons x w)
  show ?case
  proof (cases "in_cls k x")
    case False
    with Cons.prems show ?thesis by (subst (asm) star_cls_unfold) simp
  next
    case True
    with Cons.prems have "st \<in> set (rmatch fl (Star (Cls k)) (Suc p, w, c)) \<or> st = (p, x # w, c)"
      by (subst (asm) star_cls_unfold) auto
    then show ?thesis
    proof
      assume "st \<in> set (rmatch fl (Star (Cls k)) (Suc p, w, c))"
      from Cons.IH[OF this] obtain i where
        "i \<le> length (takeWhile (in_cls k) w)" "st = (Suc p + i, drop i w, c)" by blast
      with True show ?thesis by (intro exI[of _ "Suc i"]) simp
    next
      assume "st = (p, x # w, c)"
      then show ?thesis by (intro exI[of _ 0]) simp
    qed
  qed
qed

lemma seq_unfold: "rmatch fl (Seq r1 r2) st = concat (map (rmatch fl r2) (rmatch fl r1 st))"
  by (subst rmatch.simps) simp

lemma seqs_cons: "rs \<noteq> [] \<Longrightarrow> seqs (r # rs) = Seq r (seqs rs)"
  by (cases rs) simp_all

lemma ident_states:
  "st \<in> set (rmatch fl ident (p, w, c)) \<Longrightarrow>
   \<exists>x w'. w = x # w' \<and> in_cls IdStart x
     \<and> (\<exists>i \<le> length (takeWhile (in_cls IdChar) w'). st = (Suc p + i, drop i w', c))"
  unfolding ident_def seq_unfold
  by (cases w) (auto simp: rmatch.simps(2) dest!: star_cls_states split: if_splits)

lemma ident_head:
  "in_cls IdStart x \<Longrightarrow>
   \<exists>rest. rmatch fl ident (p, x # w, c) =
     (Suc p + length (takeWhile (in_cls IdChar) w), dropWhile (in_cls IdChar) w, c) # rest"
  unfolding ident_def seq_unfold
  using star_cls_head[of fl IdChar "Suc p" w c]
  by (auto simp: rmatch.simps(2))

lemma search_bol_later: "0 < p \<Longrightarrow> search fl (Seq Bol r) p w = None"
proof (induction w arbitrary: p)
  case Nil
  then show ?case by (subst search.simps) (simp add: seq_unfold rmatch.simps)
next
  case (Cons x w)
  then show ?case by (subst search.simps) (simp add: seq_unfold rmatch.simps)
qed

lemma match_bol:
  "match fl (Seq Bol r) s =
     (case rmatch fl r (0, s, []) of
        [] \<Rightarrow> None
      | st # _ \<Rightarrow> Some \<lparr>m_index = 0, m_end = fst st, m_rest = fst (snd st),
                        m_text = take (fst st) s, m_caps = snd (snd st)\<rparr>)"
  unfolding match_def
  by (subst search.simps)
     (auto simp: seq_unfold rmatch.simps(12) search_bol_later split: list.splits)

lemma seq_eol_nonempty:
  "rmatch fl (Seq r Eol) st0 \<noteq> [] \<Longrightarrow> \<exists>st \<in> set (rmatch fl r st0). fst (snd st) = []"
  by (auto simp: seq_unfold rmatch.simps(13) split: if_splits)

lemma ident_only_iff: "test fl_none rx_ident_only s = is_identifier s"
proof
  assume "test fl_none rx_ident_only s"
  then have "rmatch fl_none (Seq ident Eol) (0, s, []) \<noteq> []"
    unfolding test_def rx_ident_only_def
    by (auto simp: seqs_cons match_bol split: list.splits)
  from seq_eol_nonempty[OF this] obtain st where
    st: "st \<in> set (rmatch fl_none ident (0, s, []))" "fst (snd st) = []" by blast
  from ident_states[OF st(1)] obtain x w' i where
    s: "s = x # w'" "in_cls IdStart x" "i \<le> length (takeWhile (in_cls IdChar) w')"
       "st = (Suc 0 + i, drop i w', [])" by auto
  from st(2) s(4) have "length w' \<le> i" by simp
  with s(3) have "length (takeWhile (in_cls IdChar) w') = length w'"
    using length_takeWhile_le[of "in_cls IdChar" w'] by simp
  then have "takeWhile (in_cls IdChar) w' = w'"
    by (metis takeWhile_eq_take take_all order_refl)
  then have "list_all (in_cls IdChar) w'"
    by (metis list_all_iff set_takeWhileD)
  with s show "is_identifier s" by (simp add: is_identifier_def)
next
  assume "is_identifier s"
  then obtain x w where s: "s = x # w" "in_cls IdStart x" "list_all (in_cls IdChar) w"
    by (auto simp: is_identifier_def split: list.splits)
  then have tw: "takeWhile (in_cls IdChar) w = w" "dropWhile (in_cls IdChar) w = []"
    by (simp_all add: list_all_iff)
  from ident_head[OF s(2), of fl_none 0 w "[]"] tw obtain rest where
    "rmatch fl_none ident (0, s, []) = (Suc (length w), [], []) # rest"
    by (auto simp: s(1))
  then show "test fl_none rx_ident_only s"
    unfolding test_def rx_ident_only_def
    by (simp add: seqs_cons match_bol seq_unfold rmatch.simps(13))
qed

lemma simple_column_match:
  assumes "is_identifier s"
  shows "\<exists>m. match fl_none rx_simple_column s = Some m \<and> grp_str m 1 = s"
proof -
  from assms obtain x w where s: "s = x # w" "in_cls IdStart x" "list_all (in_cls IdChar) w"
    by (auto simp: is_identifier_def split: list.splits)
  then have tw: "takeWhile (in_cls IdChar) w = w" "dropWhile (in_cls IdChar) w = []"
    by (simp_all add: list_all_iff)
  from ident_head[OF s(2), of fl_none 0 w "[]"] tw obtain rest where
    "rmatch fl_none ident (0, s, []) = (Suc (length w), [], []) # rest"
    by (auto simp: s(1))
  then show ?thesis
    unfolding rx_simple_column_def
    by (simp add: seqs_cons match_bol seq_unfold rmatch.simps(11,13) grp_str_def grp_def s(1))
qed

lemma lit_match_suffix: "lit_match ic p w = Some w' \<Longrightarrow> suffix w' w"
  by (induction ic p w rule: lit_match.induct) (auto split: if_splits intro: suffix_ConsI)

lemma suffix_tl: "x # u = w \<Longrightarrow> suffix u w"
  by (auto simp: suffix_def)

lemma rmatch_suffix:
  "st' \<in> set (rmatch fl r st) \<Longrightarrow> suffix (fst (snd st')) (fst (snd st))"
proof (induction fl r st arbitrary: st' rule: rmatch.induct)
  case (1 fl p st)
  then show ?case
    by (auto simp: rmatch.simps split: option.splits intro: lit_match_suffix[OF sym])
next
  case (2 fl k st)
  then show ?case by (auto simp: rmatch.simps split: list.splits if_splits intro: suffix_tl)
next
  case (3 fl st)
  then show ?case by (auto simp: rmatch.simps split: list.splits if_splits intro: suffix_tl)
next
  case (4 fl r1 r2 st)
  from "4.prems" obtain st1 where "st1 \<in> set (rmatch fl r1 st)" "st' \<in> set (rmatch fl r2 st1)"
    by (auto simp: rmatch.simps)
  with "4.IH" show ?case by (blast intro: suffix_order.trans)
next
  case (5 fl r1 r2 st)
  from "5.prems" have "st' \<in> set (rmatch fl r1 st) \<or> st' \<in> set (rmatch fl r2 st)"
    by (simp add: rmatch.simps(5))
  with "5.IH" show ?case by blast
next
  case (6 fl r st)
  from "6.prems" consider "st' = st"
    | st1 where "st1 \<in> set (rmatch fl r st)" "progress st st1" "st' \<in> set (rmatch fl (Star r) st1)"
    by (subst (asm) rmatch.simps) (auto split: if_splits)
  then show ?case
  proof cases
    case 1
    then show ?thesis by simp
  next
    case 2
    with "6.IH" show ?thesis by (blast intro: suffix_order.trans)
  qed
next
  case (7 fl r st)
  from "7.prems" consider "st' = st"
    | st1 where "st1 \<in> set (rmatch fl r st)" "progress st st1" "st' \<in> set (rmatch fl (LazyStar r) st1)"
    by (subst (asm) rmatch.simps) (auto split: if_splits)
  then show ?case
  proof cases
    case 1
    then show ?thesis by simp
  next
    case 2
    with "7.IH" show ?thesis by (blast intro: suffix_order.trans)
  qed
next
  case (8 fl r st)
  from "8.prems" obtain st1 where "st1 \<in> set (rmatch fl r st)" "st' \<in> set (rmatch fl (Star r) st1)"
    by (auto simp: rmatch.simps(8))
  with "8.IH" show ?case by (blast intro: suffix_order.trans)
next
  case (9 fl r st)
  from "9.prems" obtain st1 where "st1 \<in> set (rmatch fl r st)" "st' \<in> set (rmatch fl (LazyStar r) st1)"
    by (auto simp: rmatch.simps(9))
  with "9.IH" show ?case by (blast intro: suffix_order.trans)
next
  case (10 fl r st)
  from "10.prems" have "st' \<in> set (rmatch fl r st) \<or> st' = st"
    by (auto simp: rmatch.simps(10))
  with "10.IH" show ?case by blast
next
  case (11 fl n r st)
  from "11.prems" obtain st1 where "st1 \<in> set (rmatch fl r st)" "fst (snd st') = fst (snd st1)"
    by (auto simp: rmatch.simps(11))
  with "11.IH"[of st1] show ?case by simp
next
  case (12 fl st)
  then show ?case by (auto simp: rmatch.simps(12) split: if_splits)
next
  case (13 fl st)
  then show ?case by (auto simp: rmatch.simps(13) split: if_splits)
next
  case (14 fl r st)
  from "14.prems" have "fst (snd st') = fst (snd st)"
    by (auto simp: rmatch.simps(14) split: list.splits)
  then show ?case by simp
qed

section \<open>The attribution of unqualified columns in the fallback extractor\<close>

text \<open>An identifier of the select list is one of the extracted columns and is pushed
  to the entry of the first table; every later step of the extractor keeps what the
  table-to-columns object holds, and every entry of the object gives its edge.\<close>

lemma idstart_idchar: "in_cls IdStart c \<Longrightarrow> in_cls IdChar c"
  by auto

lemma idchar_not_space: "in_cls IdChar c \<Longrightarrow> \<not> is_space c"
  by (auto simp: is_space_def is_lower_def is_upper_def is_digit_def)

lemma idchar_not_dot: "in_cls IdChar c \<Longrightarrow> c \<noteq> CHR ''.''"
  by (auto simp: is_lower_def is_upper_def is_digit_def)

lemma idchar_not_star: "in_cls IdStart c \<Longrightarrow> c \<noteq> CHR ''*''"
  by (auto simp: is_lower_def is_upper_def is_digit_def)

lemma idchar_upper_no_space: "in_cls IdChar c \<Longrightarrow> CHR '' '' \<notin> set (upper_units c)"
proof (cases c)
  case (Char b0 b1 b2 b3 b4 b5 b6 b7)
  assume "in_cls IdChar c"
  then show ?thesis
    unfolding Char
    by (cases b0; cases b1; cases b2; cases b3; cases b4; cases b5; cases b6; cases b7;
        simp add: upper_units_code is_lower_code is_upper_code is_digit_code is_latin_lower_code)
qed

lemma identifier_chars: "is_identifier s \<Longrightarrow> s \<noteq> [] \<and> list_all (in_cls IdChar) s"
  by (auto simp: is_identifier_def split: list.splits)

lemma trim_no_space:
  assumes "s \<noteq> []" and "\<not> is_space (hd s)" and "\<not> is_space (last s)"
  shows "trim s = s"
proof -
  from assms have "dropWhile is_space s = s" by (cases s) simp_all
  moreover from assms have "dropWhile is_space (rev s) = rev s"
    by (cases "rev s") (simp_all add: hd_rev[symmetric] del: hd_rev)
  ultimately show ?thesis by (simp add: trim_def)
qed

lemma identifier_trim: "is_identifier s \<Longrightarrow> trim s = s"
proof -
  assume "is_identifier s"
  from identifier_chars[OF this] have "s \<noteq> []" "\<forall>c \<in> set s. \<not> is_space c"
    by (auto simp: list_all_iff simp del: in_cls.simps dest: idchar_not_space)
  then show ?thesis by (intro trim_no_space) auto
qed

lemma identifier_no_dot: "is_identifier s \<Longrightarrow> CHR ''.'' \<notin> set s"
  using identifier_chars[of s] by (auto simp: list_all_iff simp del: in_cls.simps dest: idchar_not_dot)

lemma identifier_not_star: "is_identifier s \<Longrightarrow> s \<noteq> ''*''"
  by (auto simp: is_identifier_def is_lower_def is_upper_def split: list.splits)

lemma starts_with_set: "starts_with s p \<Longrightarrow> set p \<subseteq> set s"
  by (induction s p rule: starts_with.induct) auto

lemma includes_set: "includes_str s p \<Longrightarrow> set p \<subseteq> set s"
  by (induction s) (auto dest!: starts_with_set)

lemma identifier_no_as: "is_identifier s \<Longrightarrow> \<not> includes_str (toUpperCase s) '' AS ''"
proof
  assume i: "is_identifier s" and "includes_str (toUpperCase s) '' AS ''"
  from includes_set[OF this(2)] have "CHR '' '' \<in> set (toUpperCase s)" by simp
  then obtain c where "c \<in> set s" "CHR '' '' \<in> set (upper_units c)"
    by (auto simp: toUpperCase_def)
  with identifier_chars[OF i] idchar_upper_no_space[of c] show False
    by (auto simp: list_all_iff simp del: in_cls.simps)
qed

lemma concat_map_empty: "(\<And>x. x \<in> set xs \<Longrightarrow> f x = []) \<Longrightarrow> concat (map f xs) = []"
  by (induction xs) auto

lemma lit_dot_fails:
  assumes "CHR ''.'' \<notin> set (fst (snd st))"
  shows "rmatch fl_none (Lit ''.'') st = []"
  using assms by (cases "fst (snd st)") (auto simp: rmatch.simps(1) fl_none_def)

lemma table_column_no_dot:
  assumes "CHR ''.'' \<notin> set w"
  shows "rmatch fl_none rx_table_column (p, w, c) = []"
proof -
  have dot: "rmatch fl_none (Seq (Lit ''.'') r) st = []"
    if "suffix (fst (snd st)) w" for r st
  proof -
    from that assms have "CHR ''.'' \<notin> set (fst (snd st))"
      by (auto dest: set_mono_suffix)
    then show ?thesis by (simp add: seq_unfold lit_dot_fails)
  qed
  have ws: "rmatch fl_none (Seq ws0 (Seq (Lit ''.'') r)) st = []"
    if "suffix (fst (snd st)) w" for r st
    unfolding seq_unfold[of _ ws0]
  proof (rule concat_map_empty)
    fix st2 assume "st2 \<in> set (rmatch fl_none ws0 st)"
    from rmatch_suffix[OF this] that have "suffix (fst (snd st2)) w"
      by (rule suffix_order.trans)
    then show "rmatch fl_none (Seq (Lit ''.'') r) st2 = []" by (rule dot)
  qed
  show ?thesis
    unfolding rx_table_column_def seqs.simps seq_unfold[of _ "Grp 1 ident"]
  proof (rule concat_map_empty)
    fix st1 assume "st1 \<in> set (rmatch fl_none (Grp 1 ident) (p, w, c))"
    from rmatch_suffix[OF this] have "suffix (fst (snd st1)) w" by simp
    then show "rmatch fl_none (Seq ws0 (Seq (Lit ''.'') (Seq ws0 (Grp 2 ident)))) st1 = []"
      by (rule ws)
  qed
qed

lemma search_table_column_no_dot:
  "CHR ''.'' \<notin> set w \<Longrightarrow> search fl_none rx_table_column p w = None"
proof (induction w arbitrary: p)
  case Nil
  then show ?case by (subst search.simps) (simp add: table_column_no_dot)
next
  case (Cons x w)
  then show ?case by (subst search.simps) (simp add: table_column_no_dot)
qed

lemma no_dot_no_refs:
  "CHR ''.'' \<notin> set w \<Longrightarrow> exec_loop fl_none rx_table_column w = Inr []"
  unfolding exec_loop_def
  by (subst exec_all.simps) (simp add: search_table_column_no_dot)

lemma identifier_column_names:
  assumes "is_identifier s"
  shows "extractColumnNamesFromExpression s = Inr [s]"
proof -
  from simple_column_match[OF assms] obtain m where
    "match fl_none rx_simple_column s = Some m" "grp_str m 1 = s" by blast
  then show ?thesis
    by (simp add: extractColumnNamesFromExpression_def no_dot_no_refs identifier_no_dot[OF assms])
qed

lemma set_push_new [simp]: "set (push_new xs x) = insert x (set xs)"
  by (auto simp: push_new_def)

lemma set_foldl_push_new [simp]: "set (foldl push_new xs ys) = set xs \<union> set ys"
  by (induction ys arbitrary: xs) auto

lemma foldl_push_new_hd: "\<exists>r. foldl push_new (a # as) xs = a # r"
proof (induction xs arbitrary: as)
  case Nil
  show ?case by simp
next
  case (Cons x xs)
  show ?case using Cons.IH by (simp add: push_new_def)
qed

lemma columnsPart_mono: "columnsPart cols part = Inr cols' \<Longrightarrow> set cols \<subseteq> set cols'"
  by (auto simp: columnsPart_def split: if_splits option.splits sum.splits)

lemma columnsPart_identifier:
  assumes "is_identifier (trim item)"
  shows "columnsPart cols item = Inr (push_new cols (trim item))"
  using identifier_not_star[OF assms] identifier_no_as[OF assms] identifier_column_names[OF assms]
  by (simp add: columnsPart_def)

lemma columns_loop_mono: "columns_loop cols parts = Inr cs \<Longrightarrow> set cols \<subseteq> set cs"
proof (induction parts arbitrary: cols)
  case Nil
  then show ?case by simp
next
  case (Cons p ps)
  then show ?case by (auto split: sum.splits dest!: columnsPart_mono)
qed

lemma columns_loop_contains:
  assumes "item \<in> set parts" and "is_identifier (trim item)"
    and "columns_loop cols parts = Inr cs"
  shows "trim item \<in> set cs"
  using assms(1,3)
proof (induction parts arbitrary: cols)
  case Nil
  then show ?case by simp
next
  case (Cons p ps)
  from Cons.prems(2) obtain cols' where
    c: "columnsPart cols p = Inr cols'" "columns_loop cols' ps = Inr cs"
    by (auto split: sum.splits)
  show ?case
  proof (cases "p = item")
    case True
    with c(1) columnsPart_identifier[OF assms(2), of cols] have "trim item \<in> set cols'" by auto
    with columns_loop_mono[OF c(2)] show ?thesis by auto
  next
    case False
    with Cons.prems(1) have "item \<in> set ps" by simp
    from Cons.IH[OF this c(2)] show ?thesis .
  qed
qed

lemma extractColumnsWithAliases_contains:
  assumes "match fl_si rx_select sql = Some m"
    and "item \<in> set (splitSelectClause (grp_str m 1))" and "is_identifier (trim item)"
    and "extractColumnsWithAliases sql = Inr cols"
  shows "trim item \<in> set cols"
proof -
  from assms(1,4) obtain cs where
    "columns_loop [] (splitSelectClause (grp_str m 1)) = Inr cs" "cols = foldl push_new [] cs"
    by (auto simp: extractColumnsWithAliases_def split: sum.splits)
  with columns_loop_contains[OF assms(2,3)] show ?thesis by simp
qed

lemma tcm_add_has: "tcm_add m t c = Inr m' \<Longrightarrow> has m' t c"
  by (auto simp: tcm_add_def has_def update_conv' map_add_def split: option.splits if_splits)

lemma tcm_add_mono: "tcm_add m t' c' = Inr m' \<Longrightarrow> has m t c \<Longrightarrow> has m' t c"
  by (auto simp: tcm_add_def has_def update_conv' map_add_def split: option.splits if_splits)

lemma tcm_push_mono: "tcm_push m t' c' = Inr m' \<Longrightarrow> has m t c \<Longrightarrow> has m' t c"
  by (auto simp: tcm_push_def has_def update_conv' map_add_def split: option.splits if_splits)

lemma refs_loop_mono: "refs_loop a ms m = Inr m' \<Longrightarrow> has m t c \<Longrightarrow> has m' t c"
proof (induction ms arbitrary: m)
  case Nil
  then show ?case by simp
next
  case (Cons x ms)
  then show ?case by (auto split: sum.splits dest: tcm_add_mono)
qed

lemma refs_mono:
  "extractTableColumnReferencesWithAliases e a m = Inr m' \<Longrightarrow> has m t c \<Longrightarrow> has m' t c"
  by (auto simp: extractTableColumnReferencesWithAliases_def split: sum.splits dest: refs_loop_mono)

lemma clauseRefs_mono: "clauseRefs r sql a m = Inr m' \<Longrightarrow> has m t c \<Longrightarrow> has m' t c"
  by (auto simp: clauseRefs_def split: option.splits dest: refs_mono)

lemma joinRefs_mono: "joinRefs a ms m = Inr m' \<Longrightarrow> has m t c \<Longrightarrow> has m' t c"
proof (induction ms arbitrary: m)
  case Nil
  then show ?case by simp
next
  case (Cons x ms)
  then show ?case by (auto split: sum.splits dest: refs_mono)
qed

lemma clauses_mono:
  "extractColumnsFromClausesWithAliases sql a m = Inr m' \<Longrightarrow> has m t c \<Longrightarrow> has m' t c"
  unfolding extractColumnsFromClausesWithAliases_def
  by (auto split: sum.splits) (blast intro: clauseRefs_mono joinRefs_mono)

lemma star_loop_mono: "star_loop ts m = Inr m' \<Longrightarrow> has m t c \<Longrightarrow> has m' t c"
proof (induction ts arbitrary: m)
  case Nil
  then show ?case by simp
next
  case (Cons x ts)
  then show ?case by (auto split: sum.splits dest: tcm_push_mono)
qed

lemma attribute_mono:
  "attributeToMainTable ti m col = Inr m' \<Longrightarrow> has m t c \<Longrightarrow> has m' t c"
  by (auto simp: attributeToMainTable_def split: list.splits if_splits dest: tcm_add_mono)

lemma relationPart_mono:
  "relationPart ti a m col = Inr m' \<Longrightarrow> has m t c \<Longrightarrow> has m' t c"
  by (auto simp: relationPart_def split: if_splits sum.splits
           dest: star_loop_mono refs_mono attribute_mono)

lemma relation_loop_mono:
  "relation_loop ti a m cols = Inr m' \<Longrightarrow> has m t c \<Longrightarrow> has m' t c"
proof (induction cols arbitrary: m)
  case Nil
  then show ?case by simp
next
  case (Cons x cols)
  then show ?case by (auto split: sum.splits dest: relationPart_mono)
qed

lemma identifier_valid:
  assumes "is_identifier s" and "\<not> isSQLKeyword s"
  shows "isValidColumnName_vis s"
  using assms identifier_chars[OF assms(1)]
  by (simp add: isValidColumnName_vis_def identifier_trim ident_only_iff)

lemma relationPart_identifier:
  assumes "is_identifier (trim item)" and "\<not> isSQLKeyword (trim item)"
    and "ti_tableName t0 \<noteq> []"
    and "relationPart (t0 # ts) a m item = Inr m'"
  shows "has m' (ti_tableName t0) (trim item)"
proof -
  have "extractTableColumnReferencesWithAliases (trim item) a m = Inr m"
    by (simp add: extractTableColumnReferencesWithAliases_def no_dot_no_refs
          identifier_no_dot[OF assms(1)])
  with assms(4) have "tcm_add m (ti_tableName t0) (trim item) = Inr m'"
    using identifier_not_star[OF assms(1)] identifier_no_dot[OF assms(1)]
          identifier_valid[OF assms(1,2)] assms(3)
    by (simp add: relationPart_def attributeToMainTable_def)
  then show ?thesis by (rule tcm_add_has)
qed

lemma relation_loop_contains:
  assumes "item \<in> set cols" and "is_identifier (trim item)" and "\<not> isSQLKeyword (trim item)"
    and "ti_tableName t0 \<noteq> []"
    and "relation_loop (t0 # ts) a m cols = Inr m'"
  shows "has m' (ti_tableName t0) (trim item)"
  using assms(1,5)
proof (induction cols arbitrary: m)
  case Nil
  then show ?case by simp
next
  case (Cons x cols)
  from Cons.prems(2) obtain m1 where
    m1: "relationPart (t0 # ts) a m x = Inr m1" "relation_loop (t0 # ts) a m1 cols = Inr m'"
    by (auto split: sum.splits)
  show ?case
  proof (cases "x = item")
    case True
    with m1(1) have "has m1 (ti_tableName t0) (trim item)"
      using relationPart_identifier[OF assms(2,3,4)] by simp
    with m1(2) show ?thesis by (rule relation_loop_mono)
  next
    case False
    with Cons.prems(1) have "item \<in> set cols" by simp
    from Cons.IH[OF this m1(2)] show ?thesis .
  qed
qed

lemma relationships_contain:
  assumes "match fl_si rx_select sql = Some sm"
    and "item \<in> set (splitSelectClause (grp_str sm 1))"
    and "is_identifier (trim item)" and "\<not> isSQLKeyword (trim item)"
    and "ti_tableName t0 \<noteq> []"
    and "parseTableColumnRelationshipsWithAliases sql (t0 # ts) = Inr m"
  shows "has m (ti_tableName t0) (trim item)"
proof -
  from assms(1,6) obtain m1 where
    m1: "relation_loop (t0 # ts) (aliasToTableMap (t0 # ts)) []
           (splitSelectClause (grp_str sm 1)) = Inr m1"
        "extractColumnsFromClausesWithAliases sql (aliasToTableMap (t0 # ts)) m1 = Inr m"
    by (auto simp: parseTableColumnRelationshipsWithAliases_def split: sum.splits)
  from relation_loop_contains[OF assms(2,3,4,5) m1(1)] m1(2) show ?thesis
    by (rule clauses_mono[rotated])
qed

lemma find_index_Some:
  "x \<in> set xs \<Longrightarrow> P x \<Longrightarrow> \<exists>j. find_index P xs = Some j \<and> j < length xs \<and> P (xs ! j)"
proof (induction xs)
  case Nil
  then show ?case by simp
next
  case (Cons y ys)
  show ?case
  proof (cases "P y")
    case True
    then show ?thesis by simp
  next
    case False
    with Cons.prems have "x \<in> set ys" by auto
    from Cons.IH[OF this Cons.prems(2)] obtain j where
      "find_index P ys = Some j" "j < length ys" "P (ys ! j)" by blast
    with False show ?thesis by simp
  qed
qed

lemma providesEdge_mono: "set es \<subseteq> set (providesEdge cols ti es c)"
  by (auto simp: providesEdge_def split: option.splits)

lemma providesEdge_adds:
  "find_index (\<lambda>c'. toLowerCase c' = toLowerCase c) cols = Some j \<Longrightarrow>
   \<lparr>s_source = table_id ti, s_target = column_id j, s_kind = Provides\<rparr>
     \<in> set (providesEdge cols ti es c)"
  by (auto simp: providesEdge_def list_ex_iff)
     (metis (mono_tags, lifting) sedge.equality old.unit.exhaust sedge.select_convs(1,2,3))

lemma providesEdges_mono: "set es \<subseteq> set (foldl (providesEdge cols ti) es cs)"
proof (induction cs arbitrary: es)
  case Nil
  show ?case by simp
next
  case (Cons c cs)
  show ?case using Cons.IH[of "providesEdge cols ti es c"] providesEdge_mono[of es cols ti c]
    by auto
qed

lemma providesEdges_adds:
  assumes "c \<in> set cs"
    and "find_index (\<lambda>c'. toLowerCase c' = toLowerCase c) cols = Some j"
  shows "\<lparr>s_source = table_id ti, s_target = column_id j, s_kind = Provides\<rparr>
           \<in> set (foldl (providesEdge cols ti) es cs)"
  using assms(1)
proof (induction cs arbitrary: es)
  case Nil
  then show ?case by simp
next
  case (Cons x cs)
  show ?case
  proof (cases "x = c")
    case True
    from providesEdge_adds[OF assms(2), of ti es]
         providesEdges_mono[of "providesEdge cols ti es c" cols ti cs] True
    show ?thesis by auto
  next
    case False
    with Cons.prems have "c \<in> set cs" by simp
    from Cons.IH[OF this] show ?thesis by simp
  qed
qed

lemma providesEntry_mono: "set es \<subseteq> set (providesEntry tn cols es entry)"
  using providesEdges_mono by (auto simp: providesEntry_def split: option.splits)

lemma providesEntries_mono: "set es \<subseteq> set (foldl (providesEntry tn cols) es m)"
proof (induction m arbitrary: es)
  case Nil
  show ?case by simp
next
  case (Cons x m)
  show ?case using Cons.IH[of "providesEntry tn cols es x"] providesEntry_mono[of es tn cols x]
    by auto
qed

lemma providesEntries_adds:
  assumes "(t, cs) \<in> set m" and "c \<in> set cs"
    and "find_index (\<lambda>t'. toLowerCase t' = toLowerCase t) tn = Some ti"
    and "find_index (\<lambda>c'. toLowerCase c' = toLowerCase c) cols = Some j"
  shows "\<lparr>s_source = table_id ti, s_target = column_id j, s_kind = Provides\<rparr>
           \<in> set (foldl (providesEntry tn cols) es m)"
  using assms(1)
proof (induction m arbitrary: es)
  case Nil
  then show ?case by simp
next
  case (Cons x m)
  show ?case
  proof (cases "x = (t, cs)")
    case True
    have "\<lparr>s_source = table_id ti, s_target = column_id j, s_kind = Provides\<rparr>
            \<in> set (providesEntry tn cols es x)"
      using providesEdges_adds[OF assms(2,4)] by (simp add: providesEntry_def True assms(3))
    with providesEntries_mono[of "providesEntry tn cols es x" tn cols m] show ?thesis by auto
  next
    case False
    with Cons.prems have "(t, cs) \<in> set m" by simp
    from Cons.IH[OF this] show ?thesis by simp
  qed
qed

lemma defaultEdges_nonempty: "es \<noteq> [] \<Longrightarrow> defaultEdges tn cols es = es"
  by (simp add: defaultEdges_def)

lemma sample_table_node:
  "i < length tn \<Longrightarrow>
   \<lparr>s_id = table_id i, s_name = tn ! i, s_type = Table\<rparr> \<in> set (sampleNodes tn cols)"
  by (auto simp: sampleNodes_def)

lemma sample_column_node:
  "j < length cols \<Longrightarrow>
   \<lparr>s_id = column_id j, s_name = cols ! j, s_type = Column\<rparr> \<in> set (sampleNodes tn cols)"
  by (auto simp: sampleNodes_def)

lemma unqualified_column_first_table:
  assumes "createSampleDataFromSQL normalized sqlInput = Inr g"
    and "extractTableInfoWithAliases sqlInput = Inr (t0 # ts)" and "ti_tableName t0 \<noteq> []"
    and "match fl_si rx_select sqlInput = Some selectMatch"
    and "item \<in> set (splitSelectClause (grp_str selectMatch 1))"
    and "test fl_none rx_ident_only (trim item)" and "\<not> isSQLKeyword (trim item)"
  shows "\<exists>j c. \<lparr>s_id = table_id 0, s_name = ti_tableName t0, s_type = Table\<rparr> \<in> set (s_nodes g)
             \<and> \<lparr>s_id = column_id j, s_name = c, s_type = Column\<rparr> \<in> set (s_nodes g)
             \<and> toLowerCase c = toLowerCase (trim item)
             \<and> \<lparr>s_source = table_id 0, s_target = column_id j, s_kind = Provides\<rparr>
                 \<in> set (s_edges g)"
proof -
  define tn where "tn = foldl push_new [] (map ti_tableName (t0 # ts))"
  have ident: "is_identifier (trim item)" using assms(6) by (simp add: ident_only_iff)
  from assms(1,2) obtain cols m where
    cols: "extractColumnsWithAliases sqlInput = Inr cols"
    and m: "parseTableColumnRelationshipsWithAliases sqlInput (t0 # ts) = Inr m"
    and g: "s_nodes g = s_nodes normalized @ sampleNodes tn cols"
           "s_edges g = defaultEdges tn cols (foldl (providesEntry tn cols) (s_edges normalized) m)
                         @ queryEdges (s_nodes normalized @ sampleNodes tn cols) tn cols"
    by (auto simp: createSampleDataFromSQL_def createRelationshipsFromSQL_def tn_def
             split: sum.splits)
  from foldl_push_new_hd[of "ti_tableName t0" "[]" "map ti_tableName ts"] obtain r where
    tn: "tn = ti_tableName t0 # r" by (auto simp: tn_def push_new_def)
  then have ti: "find_index (\<lambda>t'. toLowerCase t' = toLowerCase (ti_tableName t0)) tn = Some 0"
    by simp
  from extractColumnsWithAliases_contains[OF assms(4,5) ident cols]
  have "trim item \<in> set cols" .
  from find_index_Some[OF this, of "\<lambda>c'. toLowerCase c' = toLowerCase (trim item)"] obtain j where
    j: "find_index (\<lambda>c'. toLowerCase c' = toLowerCase (trim item)) cols = Some j"
       "j < length cols" "toLowerCase (cols ! j) = toLowerCase (trim item)" by auto
  from relationships_contain[OF assms(4,5) ident assms(7,3) m] obtain cs where
    cs: "(ti_tableName t0, cs) \<in> set m" "trim item \<in> set cs"
    by (auto simp: has_def dest: map_of_SomeD)
  let ?e = "\<lparr>s_source = table_id 0, s_target = column_id j, s_kind = Provides\<rparr>"
  from providesEntries_adds[OF cs ti j(1), of "s_edges normalized"]
  have e: "?e \<in> set (foldl (providesEntry tn cols) (s_edges normalized) m)" .
  then have "foldl (providesEntry tn cols) (s_edges normalized) m \<noteq> []" by auto
  from defaultEdges_nonempty[OF this] e have "?e \<in> set (s_edges g)" by (simp add: g(2))
  moreover have "\<lparr>s_id = table_id 0, s_name = ti_tableName t0, s_type = Table\<rparr> \<in> set (s_nodes g)"
    using sample_table_node[of 0 tn cols] by (simp add: g(1) tn)
  moreover have "\<lparr>s_id = column_id j, s_name = cols ! j, s_type = Column\<rparr> \<in> set (s_nodes g)"
    using sample_column_node[OF j(2), of tn] by (simp add: g(1))
  ultimately show ?thesis using j(3) by blast
qed

section \<open>The claims\<close>

text \<open>
  C1.  For every SQL text and parser result for which \<open>generateVisualizationData\<close>
  returns a graph, the source id and the target id of every edge of the graph are ids
  of nodes of the graph; hence the filter \<open>validEdges\<close> of \<open>visualizeData\<close>, which drops
  an edge with a missing end, drops none.
\<close>

theorem C1_no_dangling_edges:
  assumes "generateVisualizationData sqlQuery parserResult = Inr g"
  shows "(\<forall>e \<in> set (g_edges g).
            e_source e \<in> n_id ` set (g_nodes g) \<and> e_target e \<in> n_id ` set (g_nodes g))
         \<and> validEdges g = g_edges g"
  using assms by (rule no_dangling_edges)

theorem C1_no_dangling_edges_witness:
  "generateVisualizationData ''SELECT a.id FROM orders a''
       \<lparr>query = ''SELECT a.id FROM orders a'', tables = [''orders'']\<rparr> =
     Inr graph_select_alias
   \<and> list_all (\<lambda>e. e_source e \<in> n_id ` set (g_nodes graph_select_alias)
                     \<and> e_target e \<in> n_id ` set (g_nodes graph_select_alias))
        (g_edges graph_select_alias)
   \<and> validEdges graph_select_alias = g_edges graph_select_alias"
  using C1_no_dangling_edges [OF gen_select_alias] gen_select_alias
  by (simp add: list_all_iff)

text \<open>
  C2.  For the input \<open>SELECT a.id FROM orders a\<close> the extractor returns a graph with
  exactly one table node, named \<open>orders\<close> (none named \<open>a\<close>), one column node for \<open>id\<close>
  qualified to \<open>orders\<close>, one \<open>provides\<close> edge from the table node to the column node
  and one \<open>flows_to\<close> edge from the column node to the query node; besides these the
  graph holds the query node only.
\<close>

theorem C2_alias_resolution:
  "graph_nodes (parseSQLAndVisualize ''SELECT a.id FROM orders a'') =
     Some [\<lparr>n_id = ''query_main'', n_name = ''Main Query'', n_type = Query,
             n_originalQualifiedName = None, n_isAlias = False\<rparr>,
           \<lparr>n_id = ''table_0'', n_name = ''orders'', n_type = Table,
             n_originalQualifiedName = None, n_isAlias = False\<rparr>,
           \<lparr>n_id = ''col_1'', n_name = ''orders > id'', n_type = Column,
             n_originalQualifiedName = Some ''orders.id'', n_isAlias = False\<rparr>]
   \<and> graph_edges (parseSQLAndVisualize ''SELECT a.id FROM orders a'') =
     Some [\<lparr>e_source = ''table_0'', e_target = ''col_1'', e_type = Provides, e_label = None\<rparr>,
           \<lparr>e_source = ''col_1'', e_target = ''query_main'', e_type = FlowsTo, e_label = None\<rparr>]"
  by (simp add: run_select_alias graph_nodes_def graph_edges_def)

text \<open>
  C3.  The claim: every equality between two qualified columns in the ON clause of a
  JOIN gives two \<open>uses\<close> edges labelled \<open>on_join\<close>, one in each direction.  The code
  at three queries: for the claim's own example, where the ON clause ends the query,
  no \<open>uses\<close> edge is emitted; nor is one for a JOIN whose table has an alias without
  \<open>AS\<close>, even when a WHERE clause follows; the two \<open>uses\<close> edges appear when the joined
  table has no alias and another clause follows the condition.
\<close>

theorem C3_join_conditions:
  "map_option (map e_type)
     (graph_edges (parseSQLAndVisualize ''SELECT a.x FROM a JOIN b ON a.x = b.y'')) =
     Some [Provides, Provides, FlowsTo]
   \<and> map_option (map e_type)
     (graph_edges (parseSQLAndVisualize
        ''SELECT u.id FROM users u JOIN orders o ON u.id = o.uid WHERE o.x = 1'')) =
     Some [Provides, Provides, Provides, FlowsTo, Constrains]
   \<and> map_option (map e_type)
     (graph_edges (parseSQLAndVisualize
        ''SELECT a.x, b.y FROM a JOIN b ON a.x = b.y WHERE a.x = 1'')) =
     Some [Provides, Provides, FlowsTo, FlowsTo, Uses, Uses, Constrains]"
  using run_join_alias_without_as run_join_where
  by (simp add: run_join_at_end graph_edges_def)

text \<open>
  C4, as stated, fails: for \<open>SELECT * FROM t\<close> the graph has no \<open>provides\<close> edge; its
  only edge is the \<open>flows_to\<close> edge of the \<open>*\<close> node.
\<close>

theorem C4_no_provides_edge:
  "map_option (map e_type) (graph_edges (parseSQLAndVisualize ''SELECT * FROM t'')) =
     Some [FlowsTo]"
  by (simp add: run_select_star graph_edges_def)

text \<open>
  C4, amended.  For the input \<open>SELECT * FROM t\<close> the graph holds the query node, the
  table node \<open>t\<close> and exactly one column node, named \<open>*\<close>, and its only edge is a
  \<open>flows_to\<close> edge from the \<open>*\<close> node to the query node.
\<close>

theorem C4_select_star:
  "graph_nodes (parseSQLAndVisualize ''SELECT * FROM t'') =
     Some [\<lparr>n_id = ''query_main'', n_name = ''Main Query'', n_type = Query,
             n_originalQualifiedName = None, n_isAlias = False\<rparr>,
           \<lparr>n_id = ''table_0'', n_name = ''t'', n_type = Table,
             n_originalQualifiedName = None, n_isAlias = False\<rparr>,
           \<lparr>n_id = ''col_1'', n_name = ''*'', n_type = Column,
             n_originalQualifiedName = Some ''*'', n_isAlias = False\<rparr>]
   \<and> graph_edges (parseSQLAndVisualize ''SELECT * FROM t'') =
     Some [\<lparr>e_source = ''col_1'', e_target = ''query_main'', e_type = FlowsTo, e_label = None\<rparr>]"
  by (simp add: run_select_star graph_nodes_def graph_edges_def)

text \<open>
  C5.  The claim: an UPDATE or INSERT statement gives one \<open>modifies\<close> edge from the
  query node to the node of the target table.  The code at three statements: for a
  plain UPDATE and for a plain INSERT the graph holds the query node only, without a
  node for the target table and without an edge; the \<open>modifies\<close> edge appears when the
  target table is also the table of a FROM clause.
\<close>

theorem C5_update_insert:
  "parseSQLAndVisualize ''UPDATE users SET name = 1'' =
     Inr \<lparr>g_nodes = [query_node], g_edges = []\<rparr>
   \<and> parseSQLAndVisualize ''INSERT INTO t VALUES (1)'' =
     Inr \<lparr>g_nodes = [query_node], g_edges = []\<rparr>
   \<and> map_option (map e_type)
       (graph_edges (parseSQLAndVisualize ''INSERT INTO t SELECT a FROM t'')) =
     Some [FlowsTo, Modifies]"
  by (simp add: run_update run_insert_values run_insert_select graph_edges_def query_node_def
        mainQueryNodeId_def)

text \<open>
  C6, as stated, fails.  No comment is stripped, and the text of a comment contributes
  to the graph: for \<open>SELECT a FROM t -- JOIN u\<close> the graph has a table node \<open>u\<close>.  Nor
  does \<open>generateVisualizationData\<close> work on the text with its white space collapsed: a
  line break inside an item of the SELECT clause keeps the pattern \<open>... AS alias\<close> from
  matching, so the graph of the text has no alias node \<open>s\<close>, which the graph of the
  text with the white space collapsed has.
\<close>

theorem C6_comment_text_contributes:
  "map_option (map n_name) (graph_nodes (parseSQLAndVisualize ''SELECT a FROM t -- JOIN u'')) =
     Some [''Main Query'', ''t'', ''u'', ''a'']
   \<and> map_option (map n_name)
       (graph_nodes (parseSQLAndVisualize (''SELECT t.a +'' @ [CHR 0x0A] @ ''t.b AS s FROM t''))) =
     Some [''Main Query'', ''t'', ''t > a'', ''t > b'']
   \<and> collapse_whitespace (trim (''SELECT t.a +'' @ [CHR 0x0A] @ ''t.b AS s FROM t'')) =
     ''SELECT t.a + t.b AS s FROM t''
   \<and> map_option (map n_name)
       (graph_nodes (parseSQLAndVisualize ''SELECT t.a + t.b AS s FROM t'')) =
     Some [''Main Query'', ''t'', ''t > a'', ''t > b'', ''s'']"
  using run_comment run_line_break collapse_line_break run_no_line_break
  by (intro conjI)

text \<open>
  C6, amended.  \<open>parseSQL\<close> trims the text and collapses every run of white space to a
  single space, removes nothing else, and \<open>extractTablesAndColumns\<close> looks for the tables
  of FROM and JOIN in the text so normalised, which is also the \<open>query\<close> of the result.
  \<open>parseSQLAndVisualize\<close> takes the tables of its graph from that search, and hands
  \<open>generateVisualizationData\<close>, for the clauses it looks for itself, the text that is
  trimmed only.
\<close>

theorem C6_whitespace_normalisation:
  "parseSQL sqlQuery =
     (case extractTablesAndColumns (collapse_whitespace (trim sqlQuery)) of
        Inl e \<Rightarrow> Inl e
      | Inr ts \<Rightarrow> Inr \<lparr>query = collapse_whitespace (trim sqlQuery), tables = ts\<rparr>)
   \<and> parseSQLAndVisualize input =
     (if trim input = [] then Inl EmptyInput
      else case extractTablesAndColumns (collapse_whitespace (trim input)) of
             Inl e \<Rightarrow> Inl e
           | Inr ts \<Rightarrow>
               generateVisualizationData (trim input)
                 \<lparr>query = collapse_whitespace (trim input), tables = ts\<rparr>)"
  using parse_normalised run_normalised by (rule conjI)

text \<open>
  C7, as stated, fails for \<open>generateVisualizationData\<close>: for \<open>SELECT x FROM t\<close> the
  column node \<open>x\<close> is made, with its \<open>flows_to\<close> edge to the query node, and no
  \<open>provides\<close> edge comes from the node of the table \<open>t\<close>.
\<close>

theorem C7_unqualified_column_no_provides:
  "map_option (map (\<lambda>e. (e_source e, e_target e, e_type e)))
     (graph_edges (parseSQLAndVisualize ''SELECT x FROM t'')) =
     Some [(''col_1'', ''query_main'', FlowsTo)]"
  by (simp add: run_unqualified graph_edges_def)

text \<open>
  C7, amended.  In the fallback extractor \<open>createSampleDataFromSQL\<close>: when the first
  table that \<open>extractTableInfoWithAliases\<close> finds has a name, and an item of the select
  list is, once trimmed, a single identifier that is not a reserved word, then the
  graph has the node \<open>table_0\<close> of that first table, a column node whose name is the
  identifier up to the case of its letters, and a \<open>provides\<close> edge from \<open>table_0\<close> to
  that column node.
\<close>

theorem C7_unqualified_column_first_table:
  assumes "createSampleDataFromSQL normalized sqlInput = Inr g"
    and "extractTableInfoWithAliases sqlInput = Inr (t0 # ts)"
    and "ti_tableName t0 \<noteq> []"
    and "match fl_si rx_select sqlInput = Some selectMatch"
    and "item \<in> set (splitSelectClause (grp_str selectMatch 1))"
    and "test fl_none rx_ident_only (trim item)"
    and "\<not> isSQLKeyword (trim item)"
  shows "\<exists>j c.
           \<lparr>s_id = table_id 0, s_name = ti_tableName t0, s_type = Table\<rparr> \<in> set (s_nodes g)
         \<and> \<lparr>s_id = column_id j, s_name = c, s_type = Column\<rparr> \<in> set (s_nodes g)
         \<and> toLowerCase c = toLowerCase (trim item)
         \<and> \<lparr>s_source = table_id 0, s_target = column_id j, s_kind = Provides\<rparr>
             \<in> set (s_edges g)"
  using assms by (rule unqualified_column_first_table)

theorem C7_unqualified_column_first_table_witness:
  "createSampleDataFromSQL \<lparr>s_nodes = [], s_edges = []\<rparr> ''SELECT x FROM t'' =
     Inr \<lparr>s_nodes = [\<lparr>s_id = ''table_0'', s_name = ''t'', s_type = Table\<rparr>,
                     \<lparr>s_id = ''column_0'', s_name = ''x'', s_type = Column\<rparr>,
                     \<lparr>s_id = ''main_query'', s_name = ''Main Query'', s_type = Query\<rparr>],
          s_edges = [\<lparr>s_source = ''table_0'', s_target = ''column_0'', s_kind = Provides\<rparr>,
                     \<lparr>s_source = ''column_0'', s_target = ''main_query'', s_kind = FlowsTo\<rparr>,
                     \<lparr>s_source = ''table_0'', s_target = ''main_query'', s_kind = Sources\<rparr>]\<rparr>
   \<and> extractTableInfoWithAliases ''SELECT x FROM t'' =
     Inr [\<lparr>ti_tableName = ''t'', ti_alias = ''t'', ti_fullName = ''t''\<rparr>]
   \<and> ti_tableName \<lparr>ti_tableName = ''t'', ti_alias = ''t'', ti_fullName = ''t''\<rparr> \<noteq> []
   \<and> match fl_si rx_select ''SELECT x FROM t'' =
     Some \<lparr>m_index = 0, m_end = 13, m_rest = '' t'', m_text = ''SELECT x FROM'',
           m_caps = [(1, ''x'')]\<rparr>
   \<and> ''x'' \<in> set (splitSelectClause
        (grp_str \<lparr>m_index = 0, m_end = 13, m_rest = '' t'', m_text = ''SELECT x FROM'',
                  m_caps = [(1, ''x'')]\<rparr> 1))
   \<and> test fl_none rx_ident_only (trim ''x'')
   \<and> \<not> isSQLKeyword (trim ''x'')
   \<and> (\<exists>j c.
         \<lparr>s_id = table_id 0, s_name = ''t'', s_type = Table\<rparr>
           \<in> set [\<lparr>s_id = ''table_0'', s_name = ''t'', s_type = Table\<rparr>,
                   \<lparr>s_id = ''column_0'', s_name = ''x'', s_type = Column\<rparr>,
                   \<lparr>s_id = ''main_query'', s_name = ''Main Query'', s_type = Query\<rparr>]
       \<and> \<lparr>s_id = column_id j, s_name = c, s_type = Column\<rparr>
           \<in> set [\<lparr>s_id = ''table_0'', s_name = ''t'', s_type = Table\<rparr>,
                   \<lparr>s_id = ''column_0'', s_name = ''x'', s_type = Column\<rparr>,
                   \<lparr>s_id = ''main_query'', s_name = ''Main Query'', s_type = Query\<rparr>]
       \<and> toLowerCase c = toLowerCase (trim ''x'')
       \<and> \<lparr>s_source = table_id 0, s_target = column_id j, s_kind = Provides\<rparr>
           \<in> set [\<lparr>s_source = ''table_0'', s_target = ''column_0'', s_kind = Provides\<rparr>,
                   \<lparr>s_source = ''column_0'', s_target = ''main_query'', s_kind = FlowsTo\<rparr>,
                   \<lparr>s_source = ''table_0'', s_target = ''main_query'', s_kind = Sources\<rparr>])"
proof -
  have item: "''x'' \<in> set (splitSelectClause
        (grp_str \<lparr>m_index = 0, m_end = 13, m_rest = '' t'', m_text = ''SELECT x FROM'',
                  m_caps = [(1, ''x'')]\<rparr> 1))"
    and ident: "test fl_none rx_ident_only (trim ''x'')"
    and kw: "\<not> isSQLKeyword (trim ''x'')"
    using sample_unqualified_item by blast+
  have name: "ti_tableName \<lparr>ti_tableName = ''t'', ti_alias = ''t'', ti_fullName = ''t''\<rparr> \<noteq> []"
    by simp
  from C7_unqualified_column_first_table
    [OF sample_unqualified sample_unqualified_tables name sample_unqualified_select item ident kw]
  have "\<exists>j c.
         \<lparr>s_id = table_id 0, s_name = ''t'', s_type = Table\<rparr>
           \<in> set [\<lparr>s_id = ''table_0'', s_name = ''t'', s_type = Table\<rparr>,
                   \<lparr>s_id = ''column_0'', s_name = ''x'', s_type = Column\<rparr>,
                   \<lparr>s_id = ''main_query'', s_name = ''Main Query'', s_type = Query\<rparr>]
       \<and> \<lparr>s_id = column_id j, s_name = c, s_type = Column\<rparr>
           \<in> set [\<lparr>s_id = ''table_0'', s_name = ''t'', s_type = Table\<rparr>,
                   \<lparr>s_id = ''column_0'', s_name = ''x'', s_type = Column\<rparr>,
                   \<lparr>s_id = ''main_query'', s_name = ''Main Query'', s_type = Query\<rparr>]
       \<and> toLowerCase c = toLowerCase (trim ''x'')
       \<and> \<lparr>s_source = table_id 0, s_target = column_id j, s_kind = Provides\<rparr>
           \<in> set [\<lparr>s_source = ''table_0'', s_target = ''column_0'', s_kind = Provides\<rparr>,
                   \<lparr>s_source = ''column_0'', s_target = ''main_query'', s_kind = FlowsTo\<rparr>,
                   \<lparr>s_source = ''table_0'', s_target = ''main_query'', s_kind = Sources\<rparr>]"
    unfolding sgraph.simps snode.simps table_info.simps .
  with sample_unqualified sample_unqualified_tables name sample_unqualified_select item ident kw
  show ?thesis by blast
qed

text \<open>
  C8, as stated, fails: a table node, an alias node and a column node inferred from
  the last segment of a dotted expression are named by a reserved word in the graphs of
  \<open>SELECT id FROM index\<close>, \<open>SELECT t.a AS count FROM t\<close> and \<open>SELECT 1.count FROM t\<close>.
\<close>

theorem C8_keyword_node_names:
  "map_option (map n_name) (graph_nodes (parseSQLAndVisualize ''SELECT id FROM index'')) =
     Some [''Main Query'', ''index'', ''id'']
   \<and> map_option (map n_name) (graph_nodes (parseSQLAndVisualize ''SELECT t.a AS count FROM t'')) =
     Some [''Main Query'', ''t'', ''t > a'', ''count'']
   \<and> map_option (map n_name) (graph_nodes (parseSQLAndVisualize ''SELECT 1.count FROM t'')) =
     Some [''Main Query'', ''t'', ''count'']
   \<and> isSQLKeyword ''index'' \<and> isSQLKeyword ''count''"
  using run_keyword_alias run_keyword_dotted
  by (simp add: run_keyword_table keywords_index_count graph_nodes_def)

text \<open>
  C8, amended.  For every text and parser result for which a graph is returned, a node
  whose name is, case-insensitively, a reserved word is one of three.  A table node,
  named by a table of the parser.  An alias node, named by the alias of a part
  \<open>... AS alias\<close> of the SELECT clause whose expression holds a qualified reference.  Or
  a column node that is no alias node and carries its name as original name, where a
  part of the SELECT clause has an expression that holds no qualified reference and
  that, cleaned by \<open>extractOriginalColumnFromExpression\<close>, has a dot, and the name of
  the node is the trimmed last dot-separated segment of the cleaned expression.  So
  the query node and the column nodes of qualified references are never named by a
  reserved word, and where no part of the SELECT clause has such a dotted expression,
  no column node but an alias node is.
\<close>

theorem C8_keyword_names:
  assumes "generateVisualizationData sqlQuery parserResult = Inr g"
    and "n \<in> set (g_nodes g)" and "isSQLKeyword (n_name n)"
  shows "\<exists>a. extractTableAliases sqlQuery = Inr a
           \<and> (is_table_node n \<and> n_name n \<in> set (tables parserResult)
              \<or> is_select_alias_node sqlQuery a n
              \<or> n_type n = Column \<and> \<not> n_isAlias n
                  \<and> n_originalQualifiedName n = Some (n_name n)
                  \<and> (\<exists>part. part \<in> set (selectClauseParts sqlQuery)
                        \<and> extractTableColumnReferences (selectExpression part) a None []
                            = Inr (None, [])
                        \<and> CHR ''.'' \<in> set (cleanExpr (selectExpression part))
                        \<and> n_name n = trim (split_pop (cleanExpr (selectExpression part)))))"
  using assms by (rule keyword_names_select)

theorem C8_keyword_names_witness:
  "generateVisualizationData ''SELECT 1.count FROM t''
       \<lparr>query = ''SELECT 1.count FROM t'', tables = [''t'']\<rparr> = Inr graph_keyword_dotted
   \<and> count_node \<in> set (g_nodes graph_keyword_dotted)
   \<and> isSQLKeyword (n_name count_node)
   \<and> (\<exists>a. extractTableAliases ''SELECT 1.count FROM t'' = Inr a
           \<and> (is_table_node count_node
                 \<and> n_name count_node
                     \<in> set (tables \<lparr>query = ''SELECT 1.count FROM t'', tables = [''t'']\<rparr>)
              \<or> is_select_alias_node ''SELECT 1.count FROM t'' a count_node
              \<or> n_type count_node = Column \<and> \<not> n_isAlias count_node
                  \<and> n_originalQualifiedName count_node = Some (n_name count_node)
                  \<and> (\<exists>part. part \<in> set (selectClauseParts ''SELECT 1.count FROM t'')
                        \<and> extractTableColumnReferences (selectExpression part) a None []
                            = Inr (None, [])
                        \<and> CHR ''.'' \<in> set (cleanExpr (selectExpression part))
                        \<and> n_name count_node
                            = trim (split_pop (cleanExpr (selectExpression part))))))"
proof -
  have mem: "count_node \<in> set (g_nodes graph_keyword_dotted)"
    and kw: "isSQLKeyword (n_name count_node)"
    using count_node_keyword by blast+
  from C8_keyword_names [OF gen_keyword_dotted mem kw] gen_keyword_dotted mem kw
  show ?thesis by (intro conjI)
qed

text \<open>
  C9, as stated, fails: the query node is the first node of the list, not the last.
\<close>

theorem C9_query_node_first:
  "map_option (map n_type) (graph_nodes (parseSQLAndVisualize ''SELECT a.id FROM orders a'')) =
     Some [Query, Table, Column]"
  by (simp add: run_select_alias graph_nodes_def)

text \<open>
  C9, amended.  For every input for which a graph is returned, the node list is made
  of five blocks in this order.  First the query node.  Then the table nodes, named by
  the table of the first FROM and then the tables of the JOINs in the order in which
  the JOIN pattern finds them in the text with its white space collapsed, each name
  once.  Then the column nodes of the qualified references \<open>table.column\<close>, in the
  order in which the reference pattern finds them in the trimmed text, one node for
  each reference that is new up to the case of its letters.  Then the column nodes of
  the unqualified columns of the SELECT clause.  Then the alias nodes of the aliases of
  the SELECT clause.
\<close>

theorem C9_node_order:
  assumes "parseSQLAndVisualize input = Inr g"
  shows "\<exists>joins a ms T Q S A.
           exec_loop fl_i rx_join (cleanQuery (trim input)) = Inr joins
         \<and> extractTableAliases (trim input) = Inr a
         \<and> exec_loop fl_none rx_table_column (trim input) = Inr ms
         \<and> g_nodes g = query_node # T @ Q @ S @ A
         \<and> list_all is_table_node T
         \<and> map n_name T
             = first_seen (\<lambda>t. t)
                 ((case match fl_i rx_from (cleanQuery (trim input)) of
                     None \<Rightarrow> []
                   | Some m \<Rightarrow> [table_of m])
                  @ map table_of joins)
         \<and> list_all is_qualified_column_node Q
         \<and> map n_originalQualifiedName Q
             = map Some (first_seen toLowerCase (map (reference a) ms))
         \<and> list_all (is_select_column_node (trim input) a) S
         \<and> list_all (is_select_alias_node (trim input) a) A"
  using assms by (rule run_nodes_order)

theorem C9_node_order_witness:
  "parseSQLAndVisualize ''SELECT a.x, y, b.z AS w FROM a JOIN b ON a.x = b.x'' =
     Inr graph_join_alias
   \<and> map n_name (g_nodes graph_join_alias) =
     [''Main Query'', ''a'', ''b'', ''a > x'', ''b > z'', ''b > x'', ''y'', ''w'']
   \<and> (\<exists>joins a ms T Q S A.
           exec_loop fl_i rx_join
             (cleanQuery (trim ''SELECT a.x, y, b.z AS w FROM a JOIN b ON a.x = b.x'')) = Inr joins
         \<and> extractTableAliases (trim ''SELECT a.x, y, b.z AS w FROM a JOIN b ON a.x = b.x'') = Inr a
         \<and> exec_loop fl_none rx_table_column
             (trim ''SELECT a.x, y, b.z AS w FROM a JOIN b ON a.x = b.x'') = Inr ms
         \<and> g_nodes graph_join_alias = query_node # T @ Q @ S @ A
         \<and> list_all is_table_node T
         \<and> map n_name T
             = first_seen (\<lambda>t. t)
                 ((case match fl_i rx_from
                          (cleanQuery (trim ''SELECT a.x, y, b.z AS w FROM a JOIN b ON a.x = b.x'')) of
                     None \<Rightarrow> []
                   | Some m \<Rightarrow> [table_of m])
                  @ map table_of joins)
         \<and> list_all is_qualified_column_node Q
         \<and> map n_originalQualifiedName Q
             = map Some (first_seen toLowerCase (map (reference a) ms))
         \<and> list_all
             (is_select_column_node (trim ''SELECT a.x, y, b.z AS w FROM a JOIN b ON a.x = b.x'') a) S
         \<and> list_all
             (is_select_alias_node (trim ''SELECT a.x, y, b.z AS w FROM a JOIN b ON a.x = b.x'') a) A)"
  using C9_node_order [OF run_join_alias] run_join_alias names_join_alias
  by (intro conjI)

text \<open>
  C10.  For every SQL text and parser result for which \<open>generateVisualizationData\<close>
  returns a graph, also for a text without any SQL clause, the graph has exactly one
  node of type \<open>query\<close>: the node with id \<open>query_main\<close> and name \<open>Main Query\<close> that the
  method creates first, before it looks for tables or columns.
\<close>

theorem C10_single_query_node:
  assumes "generateVisualizationData sqlQuery parserResult = Inr g"
  shows "filter (\<lambda>n. n_type n = Query) (g_nodes g) = [query_node]
         \<and> n_id query_node = ''query_main'' \<and> n_name query_node = ''Main Query''"
  using single_query_node [OF assms] by (simp add: query_node_def mainQueryNodeId_def)

theorem C10_single_query_node_witness:
  "generateVisualizationData ''hello'' \<lparr>query = ''hello'', tables = []\<rparr> =
     Inr \<lparr>g_nodes = [query_node], g_edges = []\<rparr>
   \<and> filter (\<lambda>n. n_type n = Query) (g_nodes \<lparr>g_nodes = [query_node], g_edges = []\<rparr>) = [query_node]
   \<and> n_id query_node = ''query_main'' \<and> n_name query_node = ''Main Query''"
  using C10_single_query_node [OF gen_no_sql] gen_no_sql by simp

end
